theory Spec2Isabelle
  imports Complex_Main
begin

section \<open>Flight-data normalisation, presentation, compression and selection\<close>

text \<open>
  A shallow embedding of \<^verbatim>\<open>aiagent.py\<close>: \<^verbatim>\<open>parse_flights\<close>,
  \<^verbatim>\<open>format_flight_for_humans\<close>, \<^verbatim>\<open>get_cheapest_flight\<close> and
  \<^verbatim>\<open>simplify_parsed_flights\<close>. Python dictionaries with a fixed set of keys are
  records; a field keeps the key's name, with a prefix where two records use the same key
  (\<open>l_\<close> raw leg, \<open>s_\<close> raw segment, \<open>p_\<close> place, \<open>c_\<close> carrier). Every exception the
  source can raise on such data is a value of \<open>error\<close>.
\<close>

subsection \<open>Errors\<close>

datatype error = KeyError string | IndexError | ValueError string

text \<open>Sequencing of fallible steps: the first exception ends the computation.\<close>

definition and_then :: "error + 'a \<Rightarrow> ('a \<Rightarrow> error + 'b) \<Rightarrow> error + 'b" where
  "and_then r f = (case r of Inl e \<Rightarrow> Inl e | Inr v \<Rightarrow> f v)"

subsection \<open>The raw payload\<close>

record raw_place =
  p_id :: string
  p_display_code :: string

record raw_carrier =
  c_id :: string
  c_name :: string
  c_display_code :: string

record raw_segment =
  s_id :: string
  s_marketing_carrier_id :: string
  s_marketing_flight_number :: string
  s_origin_place_id :: string
  s_destination_place_id :: string
  s_departure :: string
  s_arrival :: string
  s_duration :: int

record raw_leg =
  l_id :: string
  l_origin_place_id :: string
  l_destination_place_id :: string
  l_departure :: string
  l_arrival :: string
  l_duration :: int
  l_segment_ids :: "string list"

text \<open>A price amount is a JSON number; it is modelled by its exact rational value.\<close>

record price_rec =
  amount :: rat

record pricing_option =
  price :: price_rec

record raw_itinerary =
  pricing_options :: "pricing_option list"
  leg_ids :: "string list"

text \<open>Each top-level key of the payload may be absent (\<open>None\<close>).\<close>

record payload =
  legs :: "raw_leg list option"
  places :: "raw_place list option"
  carriers :: "raw_carrier list option"
  segments :: "raw_segment list option"
  itineraries :: "raw_itinerary list option"

subsection \<open>Instants\<close>

text \<open>
  A value of the library's \<^verbatim>\<open>datetime\<close>: the calendar fields, and the offset from
  UTC in microseconds of an aware value (\<open>None\<close> for a naive one).
\<close>

record datetime =
  year :: nat
  month :: nat
  day :: nat
  hour :: nat
  minute :: nat
  second :: nat
  microsecond :: nat
  utcoffset :: "int option"

subsection \<open>Normalised and compressed records\<close>

text \<open>
  A normalised segment and a normalised leg share the keys \<^verbatim>\<open>origin\<close>,
  \<^verbatim>\<open>destination\<close>, \<^verbatim>\<open>departure_time\<close>, \<^verbatim>\<open>arrival_time\<close> and
  \<^verbatim>\<open>duration\<close>; both extend the record \<open>hop\<close> that holds them. In the same way every
  record with a \<^verbatim>\<open>price_usd\<close> key extends \<open>priced\<close>.
\<close>

record hop =
  origin :: string
  destination :: string
  departure_time :: datetime
  arrival_time :: datetime
  duration :: int

record norm_segment = hop +
  segment_id :: string
  airline :: string
  airline_code :: string
  flight_number :: string

record norm_leg = hop +
  leg_segments :: "norm_segment list"
  is_direct :: bool

record priced =
  price_usd :: rat

record 'l itinerary = priced +
  outbound :: 'l
  return :: 'l

type_synonym flight = "norm_leg itinerary"

record simple_leg =
  route :: string
  departure :: string
  arrival :: string
  segment_strs :: "string list"

type_synonym simple_flight = "simple_leg itinerary"

subsection \<open>Selection: \<^verbatim>\<open>get_cheapest_flight\<close>\<close>

text \<open>
  Python's \<^verbatim>\<open>min(xs, key=k)\<close> keeps the first element and replaces it only by an
  element whose key is strictly smaller.
\<close>

fun min_by :: "('a \<Rightarrow> 'k::linorder) \<Rightarrow> 'a \<Rightarrow> 'a list \<Rightarrow> 'a" where
  "min_by key best [] = best"
| "min_by key best (x # xs) = min_by key (if key x < key best then x else best) xs"

fun get_cheapest_flight :: "'a priced_scheme list \<Rightarrow> 'a priced_scheme option" where
  "get_cheapest_flight [] = None"
| "get_cheapest_flight (f # fs) = Some (min_by price_usd f fs)"

subsection \<open>Rendering numbers\<close>

text \<open>Decimal digits of a natural number, as \<^verbatim>\<open>str\<close> and the format codes print them.\<close>

definition digit :: "nat \<Rightarrow> char" where
  "digit d = ''0123456789'' ! d"

fun dec :: "nat \<Rightarrow> string" where
  "dec n = (if n < 10 then [digit n] else dec (n div 10) @ [digit (n mod 10)])"

declare dec.simps [simp del]

text \<open>Zero padding on the left up to a minimum width (\<^verbatim>\<open>%02d\<close>, \<^verbatim>\<open>%04d\<close>).\<close>

definition zfill :: "nat \<Rightarrow> string \<Rightarrow> string" where
  "zfill w s = replicate (w - length s) (CHR ''0'') @ s"

text \<open>\<^verbatim>\<open>str(i)\<close> of an integer, as an f-string interpolates it.\<close>

definition str_int :: "int \<Rightarrow> string" where
  "str_int i = (if i < 0 then ''-'' @ dec (nat (- i)) else dec (nat i))"

text \<open>
  The format code \<^verbatim>\<open>:.2f\<close> rounds the exact value of the number to the nearest
  multiple of \<open>1/100\<close>, a tie going to the even neighbour, and prints a sign for a
  negative value only.
\<close>

definition round_half_even :: "rat \<Rightarrow> int" where
  "round_half_even y =
     (let q = \<lfloor>y\<rfloor>; r = y - of_int q
      in if r < 1 / 2 then q
         else if 1 / 2 < r then q + 1
         else if even q then q else q + 1)"

definition format_2f :: "rat \<Rightarrow> string" where
  "format_2f x =
     (let c = nat (round_half_even (\<bar>x\<bar> * 100))
      in (if x < 0 then ''-'' else []) @ dec (c div 100) @ ''.'' @ zfill 2 (dec (c mod 100)))"

subsection \<open>The library's \<^verbatim>\<open>datetime\<close>: \<^verbatim>\<open>strftime\<close> and \<^verbatim>\<open>fromisoformat\<close>\<close>

definition hour12 :: "nat \<Rightarrow> nat" where
  "hour12 h = (if h mod 12 = 0 then 12 else h mod 12)"

text \<open>The directives the program uses, in the C locale; any other is left as it is.\<close>

definition directive :: "char \<Rightarrow> datetime \<Rightarrow> string" where
  "directive c dt =
     (if c = CHR ''Y'' then zfill 4 (dec (year dt))
      else if c = CHR ''m'' then zfill 2 (dec (month dt))
      else if c = CHR ''d'' then zfill 2 (dec (day dt))
      else if c = CHR ''H'' then zfill 2 (dec (hour dt))
      else if c = CHR ''I'' then zfill 2 (dec (hour12 (hour dt)))
      else if c = CHR ''M'' then zfill 2 (dec (minute dt))
      else if c = CHR ''p'' then (if hour dt < 12 then ''AM'' else ''PM'')
      else [CHR ''%'', c])"

fun strftime :: "datetime \<Rightarrow> string \<Rightarrow> string" where
  "strftime dt (c # d # rest) =
     (if c = CHR ''%'' then directive d dt @ strftime dt rest
      else c # strftime dt (d # rest))"
| "strftime dt [c] = [c]"
| "strftime dt [] = []"

text \<open>
  \<^verbatim>\<open>datetime.fromisoformat\<close> belongs to the library, not to the program: the
  embedding takes it as a parameter \<open>parser\<close>, which gives the instant that the library
  parses from a string, and \<open>None\<close> where the library raises \<^verbatim>\<open>ValueError\<close>.
  Every function that calls the parser passes \<open>parser\<close> on, and every property below
  holds for whatever the library accepts.
\<close>

type_synonym iso_parser = "string \<Rightarrow> datetime option"

definition fromisoformat :: "iso_parser \<Rightarrow> string \<Rightarrow> error + datetime" where
  "fromisoformat parser s = (case parser s of None \<Rightarrow> Inl (ValueError s) | Some dt \<Rightarrow> Inr dt)"

subsection \<open>Normalisation: \<^verbatim>\<open>parse_flights\<close>\<close>

text \<open>\<^verbatim>\<open>data.get(key, [])\<close>: an absent key reads as the empty array.\<close>

definition get_or_empty :: "'a list option \<Rightarrow> 'a list" where
  "get_or_empty v = (case v of None \<Rightarrow> [] | Some xs \<Rightarrow> xs)"

text \<open>
  \<^verbatim>\<open>{x["id"]: x for x in xs}\<close>: the entries are stored in order, so a later record
  replaces an earlier one with the same identifier.
\<close>

definition build_lookup :: "('a \<Rightarrow> string) \<Rightarrow> 'a list \<Rightarrow> (string \<rightharpoonup> 'a)" where
  "build_lookup key xs = foldl (\<lambda>m x. m(key x \<mapsto> x)) Map.empty xs"

text \<open>\<^verbatim>\<open>table[k]\<close> raises \<^verbatim>\<open>KeyError(k)\<close> on a missing key.\<close>

definition lookup :: "(string \<rightharpoonup> 'a) \<Rightarrow> string \<Rightarrow> error + 'a" where
  "lookup table k = (case table k of None \<Rightarrow> Inl (KeyError k) | Some v \<Rightarrow> Inr v)"

text \<open>\<^verbatim>\<open>xs[i]\<close> for \<open>i \<ge> 0\<close> raises \<^verbatim>\<open>IndexError\<close> out of range.\<close>

definition item :: "'a list \<Rightarrow> nat \<Rightarrow> error + 'a" where
  "item xs i = (if i < length xs then Inr (xs ! i) else Inl IndexError)"

record tables =
  legs_lookup :: "string \<rightharpoonup> raw_leg"
  places_lookup :: "string \<rightharpoonup> raw_place"
  carriers_lookup :: "string \<rightharpoonup> raw_carrier"
  segments_lookup :: "string \<rightharpoonup> raw_segment"

definition build_tables :: "payload \<Rightarrow> tables" where
  "build_tables data =
     \<lparr>legs_lookup = build_lookup l_id (get_or_empty (legs data)),
      places_lookup = build_lookup p_id (get_or_empty (places data)),
      carriers_lookup = build_lookup c_id (get_or_empty (carriers data)),
      segments_lookup = build_lookup s_id (get_or_empty (segments data))\<rparr>"

text \<open>
  One pass of the loop over \<^verbatim>\<open>leg["segment_ids"]\<close>; the dictionary literal evaluates
  its entries from top to bottom.
\<close>

definition expand_segment :: "iso_parser \<Rightarrow> tables \<Rightarrow> string \<Rightarrow> error + norm_segment" where
  "expand_segment parser t sid =
     and_then (lookup (segments_lookup t) sid) (\<lambda>seg.
     and_then (lookup (carriers_lookup t) (s_marketing_carrier_id seg)) (\<lambda>carrier.
     and_then (lookup (places_lookup t) (s_origin_place_id seg)) (\<lambda>orig.
     and_then (lookup (places_lookup t) (s_destination_place_id seg)) (\<lambda>dest.
     and_then (fromisoformat parser (s_departure seg)) (\<lambda>dep.
     and_then (fromisoformat parser (s_arrival seg)) (\<lambda>arr.
     Inr \<lparr>origin = p_display_code orig, destination = p_display_code dest,
          departure_time = dep, arrival_time = arr, duration = s_duration seg,
          segment_id = sid, airline = c_name carrier,
          airline_code = c_display_code carrier,
          flight_number = s_marketing_flight_number seg\<rparr>))))))"

fun expand_segments :: "iso_parser \<Rightarrow> tables \<Rightarrow> string list \<Rightarrow> norm_segment list \<Rightarrow> error + norm_segment list" where
  "expand_segments parser t [] segs = Inr segs"
| "expand_segments parser t (sid # sids) segs =
     and_then (expand_segment parser t sid) (\<lambda>s. expand_segments parser t sids (segs @ [s]))"

text \<open>The \<^verbatim>\<open>format_leg\<close> nested in \<^verbatim>\<open>parse_flights\<close>.\<close>

definition format_leg :: "iso_parser \<Rightarrow> tables \<Rightarrow> raw_leg \<Rightarrow> error + norm_leg" where
  "format_leg parser t leg =
     and_then (lookup (places_lookup t) (l_origin_place_id leg)) (\<lambda>orig.
     and_then (lookup (places_lookup t) (l_destination_place_id leg)) (\<lambda>dest.
     and_then (expand_segments parser t (l_segment_ids leg) []) (\<lambda>segs.
     and_then (fromisoformat parser (l_departure leg)) (\<lambda>dep.
     and_then (fromisoformat parser (l_arrival leg)) (\<lambda>arr.
     Inr \<lparr>origin = p_display_code orig, destination = p_display_code dest,
          departure_time = dep, arrival_time = arr, duration = l_duration leg,
          leg_segments = segs, is_direct = (length segs = 1)\<rparr>)))))"

text \<open>
  The body of the loop over the itineraries: \<open>Inr None\<close> is \<^verbatim>\<open>continue\<close>,
  \<open>Inr (Some f)\<close> appends \<open>f\<close>, \<open>Inl e\<close> is an exception leaving the function.
\<close>

definition parse_itinerary :: "iso_parser \<Rightarrow> tables \<Rightarrow> raw_itinerary \<Rightarrow> error + flight option" where
  "parse_itinerary parser t itin =
     and_then (item (pricing_options itin) 0) (\<lambda>opt.
     if length (leg_ids itin) \<noteq> 2 then Inr None
     else
       and_then (item (leg_ids itin) 0) (\<lambda>id0.
       and_then (lookup (legs_lookup t) id0) (\<lambda>outbound_leg.
       and_then (item (leg_ids itin) 1) (\<lambda>id1.
       and_then (lookup (legs_lookup t) id1) (\<lambda>return_leg.
       and_then (format_leg parser t outbound_leg) (\<lambda>ob.
       and_then (format_leg parser t return_leg) (\<lambda>rt.
       Inr (Some \<lparr>price_usd = amount (price opt), outbound = ob, return = rt\<rparr>))))))))"

fun parse_loop :: "iso_parser \<Rightarrow> tables \<Rightarrow> raw_itinerary list \<Rightarrow> flight list \<Rightarrow> error + flight list" where
  "parse_loop parser t [] flights = Inr flights"
| "parse_loop parser t (itin # itins) flights =
     (case parse_itinerary parser t itin of
        Inl e \<Rightarrow> Inl e
      | Inr None \<Rightarrow> parse_loop parser t itins flights
      | Inr (Some f) \<Rightarrow> parse_loop parser t itins (flights @ [f]))"

definition parse_flights :: "iso_parser \<Rightarrow> payload \<Rightarrow> error + flight list" where
  "parse_flights parser data =
     parse_loop parser (build_tables data) (get_or_empty (itineraries data)) []"

subsection \<open>Presentation: \<^verbatim>\<open>format_flight_for_humans\<close>\<close>

definition newline :: string where
  "newline = [CHR 0x0A]"

text \<open>The right arrow U+2192, three bytes in UTF-8.\<close>

definition arrow :: string where
  "arrow = [CHR 0xE2, CHR 0x86, CHR 0x92]"

fun join :: "string \<Rightarrow> string list \<Rightarrow> string" where
  "join sep [] = []"
| "join sep [x] = x"
| "join sep (x # y # ys) = x @ sep @ join sep (y # ys)"

definition segment_line :: "norm_segment \<Rightarrow> string" where
  "segment_line seg =
     ''  - '' @ airline seg @ '' '' @ airline_code seg @ flight_number seg @ '': ''
     @ origin seg @ '' '' @ arrow @ '' '' @ destination seg
     @ '', Dep: '' @ strftime (departure_time seg) ''%I:%M %p''
     @ '', Arr: '' @ strftime (arrival_time seg) ''%I:%M %p''
     @ '', Duration: '' @ str_int (duration seg) @ '' min''"

text \<open>The \<^verbatim>\<open>format_leg\<close> nested in \<^verbatim>\<open>format_flight_for_humans\<close>.\<close>

definition format_leg_humans :: "norm_leg \<Rightarrow> string \<Rightarrow> string" where
  "format_leg_humans leg leg_name =
     join newline
       ([leg_name @ '' Flight:'',
         ''- From '' @ origin leg @ '' to '' @ destination leg,
         ''- Departure: '' @ strftime (departure_time leg) ''%Y-%m-%d %I:%M %p'',
         ''- Arrival: '' @ strftime (arrival_time leg) ''%Y-%m-%d %I:%M %p'',
         ''- Duration: '' @ str_int (duration leg) @ '' minutes'',
         ''- Direct Flight: '' @ (if is_direct leg then ''Yes'' else ''No''),
         ''- Segments:'']
        @ map segment_line (leg_segments leg))"

definition format_flight_for_humans :: "flight \<Rightarrow> string" where
  "format_flight_for_humans flight =
     join (newline @ newline)
       [''Price: $'' @ format_2f (price_usd flight),
        format_leg_humans (outbound flight) ''Outbound'',
        format_leg_humans (return flight) ''Return'']"

definition format_flights :: "flight list \<Rightarrow> string list" where
  "format_flights flights = map format_flight_for_humans flights"

subsection \<open>Compression: \<^verbatim>\<open>simplify_parsed_flights\<close>\<close>

text \<open>
  The slice \<^verbatim>\<open>xs[:n]\<close>: a negative \<open>n\<close> counts from the end, and a bound outside
  the list is clipped.
\<close>

definition slice_to :: "'a list \<Rightarrow> int \<Rightarrow> 'a list" where
  "slice_to xs n = (if n < 0 then take (nat (int (length xs) + n)) xs else take (nat n) xs)"

definition segment_code :: "norm_segment \<Rightarrow> string" where
  "segment_code seg =
     airline_code seg @ flight_number seg @ '' ''
     @ origin seg @ arrow @ destination seg @ '' (''
     @ strftime (departure_time seg) ''%H:%M'' @ arrow
     @ strftime (arrival_time seg) ''%H:%M'' @ '')''"

text \<open>The \<^verbatim>\<open>format_leg\<close> nested in \<^verbatim>\<open>simplify_parsed_flights\<close>.\<close>

definition format_leg_simple :: "norm_leg \<Rightarrow> simple_leg" where
  "format_leg_simple leg =
     \<lparr>route = origin leg @ '' '' @ arrow @ '' '' @ destination leg,
      departure = strftime (departure_time leg) ''%Y-%m-%d %H:%M'',
      arrival = strftime (arrival_time leg) ''%Y-%m-%d %H:%M'',
      segment_strs = map segment_code (leg_segments leg)\<rparr>"

definition simplify_flight :: "flight \<Rightarrow> simple_flight" where
  "simplify_flight f =
     \<lparr>price_usd = price_usd f,
      outbound = format_leg_simple (outbound f),
      return = format_leg_simple (return f)\<rparr>"

fun simplify_loop :: "flight list \<Rightarrow> simple_flight list \<Rightarrow> simple_flight list" where
  "simplify_loop [] simplified = simplified"
| "simplify_loop (f # fs) simplified = simplify_loop fs (simplified @ [simplify_flight f])"

definition simplify_parsed_flights :: "flight list \<Rightarrow> int \<Rightarrow> simple_flight list" where
  "simplify_parsed_flights flights max_results =
     simplify_loop (slice_to flights max_results) []"

subsection \<open>Notions used to state the properties\<close>

text \<open>The flights that a run of the loop over \<open>itins\<close> appends, in order.\<close>

definition kept :: "iso_parser \<Rightarrow> tables \<Rightarrow> raw_itinerary list \<Rightarrow> flight list" where
  "kept parser t itins =
     concat (map (\<lambda>itin. case parse_itinerary parser t itin of Inr (Some f) \<Rightarrow> [f] | _ \<Rightarrow> []) itins)"

text \<open>A round trip is an itinerary of exactly two legs.\<close>

definition round_trip :: "raw_itinerary \<Rightarrow> bool" where
  "round_trip itin = (length (leg_ids itin) = 2)"

text \<open>
  The references of an itinerary resolve when each leg identifier is in the legs table,
  the places of each such leg are in the places table, each of its segment identifiers
  is in the segments table, and the carrier and the places of each such segment are in
  their tables.
\<close>

definition segment_resolves :: "tables \<Rightarrow> string \<Rightarrow> bool" where
  "segment_resolves t sid =
     (case segments_lookup t sid of
        None \<Rightarrow> False
      | Some seg \<Rightarrow>
          carriers_lookup t (s_marketing_carrier_id seg) \<noteq> None
          \<and> places_lookup t (s_origin_place_id seg) \<noteq> None
          \<and> places_lookup t (s_destination_place_id seg) \<noteq> None)"

definition leg_resolves :: "tables \<Rightarrow> string \<Rightarrow> bool" where
  "leg_resolves t lid =
     (case legs_lookup t lid of
        None \<Rightarrow> False
      | Some leg \<Rightarrow>
          places_lookup t (l_origin_place_id leg) \<noteq> None
          \<and> places_lookup t (l_destination_place_id leg) \<noteq> None
          \<and> list_all (segment_resolves t) (l_segment_ids leg))"

definition refs_resolve :: "tables \<Rightarrow> raw_itinerary \<Rightarrow> bool" where
  "refs_resolve t itin = list_all (leg_resolves t) (leg_ids itin)"

text \<open>The library parses every timestamp that an itinerary reaches through its references.\<close>

definition segment_times_parse :: "iso_parser \<Rightarrow> tables \<Rightarrow> string \<Rightarrow> bool" where
  "segment_times_parse parser t sid =
     (case segments_lookup t sid of
        None \<Rightarrow> True
      | Some seg \<Rightarrow>
          \<not> isl (fromisoformat parser (s_departure seg)) \<and> \<not> isl (fromisoformat parser (s_arrival seg)))"

definition leg_times_parse :: "iso_parser \<Rightarrow> tables \<Rightarrow> string \<Rightarrow> bool" where
  "leg_times_parse parser t lid =
     (case legs_lookup t lid of
        None \<Rightarrow> True
      | Some leg \<Rightarrow>
          \<not> isl (fromisoformat parser (l_departure leg)) \<and> \<not> isl (fromisoformat parser (l_arrival leg))
          \<and> list_all (segment_times_parse parser t) (l_segment_ids leg))"

definition times_parse :: "iso_parser \<Rightarrow> tables \<Rightarrow> raw_itinerary \<Rightarrow> bool" where
  "times_parse parser t itin = list_all (leg_times_parse parser t) (leg_ids itin)"

text \<open>
  The references of an itinerary that do not resolve, each with the kind of table it is
  looked up in: a leg identifier absent from the legs table; for a leg that is found,
  its places absent from the places table and its segment identifiers absent from the
  segments table; for a segment that is found, its carrier and its places absent from
  their tables.
\<close>

datatype kind = Leg | Place | Carrier | Segment

definition absent :: "(string \<rightharpoonup> 'a) \<Rightarrow> kind \<Rightarrow> string \<Rightarrow> (kind \<times> string) list" where
  "absent table kd k = (if table k = None then [(kd, k)] else [])"

definition segment_missing :: "tables \<Rightarrow> string \<Rightarrow> (kind \<times> string) list" where
  "segment_missing t sid =
     (case segments_lookup t sid of
        None \<Rightarrow> [(Segment, sid)]
      | Some seg \<Rightarrow>
          absent (carriers_lookup t) Carrier (s_marketing_carrier_id seg)
          @ absent (places_lookup t) Place (s_origin_place_id seg)
          @ absent (places_lookup t) Place (s_destination_place_id seg))"

definition leg_missing :: "tables \<Rightarrow> string \<Rightarrow> (kind \<times> string) list" where
  "leg_missing t lid =
     (case legs_lookup t lid of
        None \<Rightarrow> [(Leg, lid)]
      | Some leg \<Rightarrow>
          absent (places_lookup t) Place (l_origin_place_id leg)
          @ absent (places_lookup t) Place (l_destination_place_id leg)
          @ concat (map (segment_missing t) (l_segment_ids leg)))"

definition missing_refs :: "tables \<Rightarrow> raw_itinerary \<Rightarrow> (kind \<times> string) list" where
  "missing_refs t itin = concat (map (leg_missing t) (leg_ids itin))"

text \<open>
  A time of day on the 12-hour clock with AM or PM, and a date followed by such a time.
\<close>

definition clock12 :: "datetime \<Rightarrow> string" where
  "clock12 dt =
     zfill 2 (dec (if hour dt mod 12 = 0 then 12 else hour dt mod 12)) @ '':''
     @ zfill 2 (dec (minute dt)) @ (if hour dt < 12 then '' AM'' else '' PM'')"

definition date_clock12 :: "datetime \<Rightarrow> string" where
  "date_clock12 dt =
     zfill 4 (dec (year dt)) @ ''-'' @ zfill 2 (dec (month dt)) @ ''-''
     @ zfill 2 (dec (day dt)) @ '' '' @ clock12 dt"

text \<open>The first four lines of a leg's block: heading, route, departure and arrival.\<close>

definition leg_block_head :: "string \<Rightarrow> norm_leg \<Rightarrow> string" where
  "leg_block_head name leg =
     name @ '' Flight:'' @ newline
     @ ''- From '' @ origin leg @ '' to '' @ destination leg @ newline
     @ ''- Departure: '' @ date_clock12 (departure_time leg) @ newline
     @ ''- Arrival: '' @ date_clock12 (arrival_time leg) @ newline"

subsection \<open>A sample payload\<close>

text \<open>
  Two round trips priced 412.50 and 387.20 over the same pair of legs, with a one-way
  itinerary between them; the outbound leg connects in Chicago, the return leg is direct.
\<close>

definition sample_places :: "raw_place list" where
  "sample_places =
     [\<lparr>p_id = ''p1'', p_display_code = ''SFO''\<rparr>,
      \<lparr>p_id = ''p2'', p_display_code = ''JFK''\<rparr>,
      \<lparr>p_id = ''p3'', p_display_code = ''ORD''\<rparr>]"

definition sample_carriers :: "raw_carrier list" where
  "sample_carriers = [\<lparr>c_id = ''c1'', c_name = ''United'', c_display_code = ''UA''\<rparr>]"

definition sample_segments :: "raw_segment list" where
  "sample_segments =
     [\<lparr>s_id = ''s1'', s_marketing_carrier_id = ''c1'', s_marketing_flight_number = ''100'',
       s_origin_place_id = ''p1'', s_destination_place_id = ''p3'',
       s_departure = ''2025-10-01T08:30:00'', s_arrival = ''2025-10-01T14:40:00'',
       s_duration = 250\<rparr>,
      \<lparr>s_id = ''s2'', s_marketing_carrier_id = ''c1'', s_marketing_flight_number = ''220'',
       s_origin_place_id = ''p3'', s_destination_place_id = ''p2'',
       s_departure = ''2025-10-01T15:30:00'', s_arrival = ''2025-10-01T18:45:00'',
       s_duration = 135\<rparr>,
      \<lparr>s_id = ''s3'', s_marketing_carrier_id = ''c1'', s_marketing_flight_number = ''101'',
       s_origin_place_id = ''p2'', s_destination_place_id = ''p1'',
       s_departure = ''2025-10-08T12:00:00'', s_arrival = ''2025-10-08T15:20:00'',
       s_duration = 380\<rparr>]"

definition sample_leg_out :: raw_leg where
  "sample_leg_out =
     \<lparr>l_id = ''l1'', l_origin_place_id = ''p1'', l_destination_place_id = ''p2'',
      l_departure = ''2025-10-01T08:30:00'', l_arrival = ''2025-10-01T18:45:00'',
      l_duration = 435, l_segment_ids = [''s1'', ''s2'']\<rparr>"

definition sample_leg_ret :: raw_leg where
  "sample_leg_ret =
     \<lparr>l_id = ''l2'', l_origin_place_id = ''p2'', l_destination_place_id = ''p1'',
      l_departure = ''2025-10-08T12:00:00'', l_arrival = ''2025-10-08T15:20:00'',
      l_duration = 380, l_segment_ids = [''s3'']\<rparr>"

definition sample_legs :: "raw_leg list" where
  "sample_legs = [sample_leg_out, sample_leg_ret]"

definition sample_itin_1 :: raw_itinerary where
  "sample_itin_1 =
     \<lparr>pricing_options = [\<lparr>price = \<lparr>amount = 825 / 2\<rparr>\<rparr>, \<lparr>price = \<lparr>amount = 300\<rparr>\<rparr>],
      leg_ids = [''l1'', ''l2'']\<rparr>"

definition sample_itin_one_way :: raw_itinerary where
  "sample_itin_one_way =
     \<lparr>pricing_options = [\<lparr>price = \<lparr>amount = 99\<rparr>\<rparr>], leg_ids = [''l1'']\<rparr>"

definition sample_itin_2 :: raw_itinerary where
  "sample_itin_2 =
     \<lparr>pricing_options = [\<lparr>price = \<lparr>amount = 3872 / 10\<rparr>\<rparr>], leg_ids = [''l1'', ''l2'']\<rparr>"

definition sample_payload :: payload where
  "sample_payload =
     \<lparr>legs = Some sample_legs, places = Some sample_places,
      carriers = Some sample_carriers, segments = Some sample_segments,
      itineraries = Some [sample_itin_1, sample_itin_one_way, sample_itin_2]\<rparr>"

text \<open>
  What the library parses from the timestamps of the sample payload; \<open>sample_iso\<close>
  stands for the library on these six strings only.
\<close>

definition instant :: "nat \<Rightarrow> nat \<Rightarrow> nat \<Rightarrow> nat \<Rightarrow> nat \<Rightarrow> datetime" where
  "instant y mo d h mi =
     \<lparr>year = y, month = mo, day = d, hour = h, minute = mi, second = 0,
      microsecond = 0, utcoffset = None\<rparr>"

definition sample_iso :: iso_parser where
  "sample_iso =
     map_of
       [(''2025-10-01T08:30:00'', instant 2025 10 1 8 30),
        (''2025-10-01T14:40:00'', instant 2025 10 1 14 40),
        (''2025-10-01T15:30:00'', instant 2025 10 1 15 30),
        (''2025-10-01T18:45:00'', instant 2025 10 1 18 45),
        (''2025-10-08T12:00:00'', instant 2025 10 8 12 0),
        (''2025-10-08T15:20:00'', instant 2025 10 8 15 20)]"

text \<open>The normalised legs and flights that the sample payload yields.\<close>

definition sample_outbound :: norm_leg where
  "sample_outbound =
     \<lparr>origin = ''SFO'', destination = ''JFK'',
      departure_time = instant 2025 10 1 8 30,
      arrival_time = instant 2025 10 1 18 45,
      duration = 435,
      leg_segments =
        [\<lparr>origin = ''SFO'', destination = ''ORD'',
          departure_time = instant 2025 10 1 8 30,
          arrival_time = instant 2025 10 1 14 40,
          duration = 250, segment_id = ''s1'', airline = ''United'', airline_code = ''UA'',
          flight_number = ''100''\<rparr>,
         \<lparr>origin = ''ORD'', destination = ''JFK'',
          departure_time = instant 2025 10 1 15 30,
          arrival_time = instant 2025 10 1 18 45,
          duration = 135, segment_id = ''s2'', airline = ''United'', airline_code = ''UA'',
          flight_number = ''220''\<rparr>],
      is_direct = False\<rparr>"

definition sample_return :: norm_leg where
  "sample_return =
     \<lparr>origin = ''JFK'', destination = ''SFO'',
      departure_time = instant 2025 10 8 12 0,
      arrival_time = instant 2025 10 8 15 20,
      duration = 380,
      leg_segments =
        [\<lparr>origin = ''JFK'', destination = ''SFO'',
          departure_time = instant 2025 10 8 12 0,
          arrival_time = instant 2025 10 8 15 20,
          duration = 380, segment_id = ''s3'', airline = ''United'', airline_code = ''UA'',
          flight_number = ''101''\<rparr>],
      is_direct = True\<rparr>"

definition sample_flight_1 :: flight where
  "sample_flight_1 = \<lparr>price_usd = 825 / 2, outbound = sample_outbound, return = sample_return\<rparr>"

definition sample_flight_2 :: flight where
  "sample_flight_2 = \<lparr>price_usd = 3872 / 10, outbound = sample_outbound, return = sample_return\<rparr>"

text \<open>Variants of the sample payload: a dangling leg identifier, and no pricing option.\<close>

definition sample_itin_dangling :: raw_itinerary where
  "sample_itin_dangling =
     \<lparr>pricing_options = [\<lparr>price = \<lparr>amount = 250\<rparr>\<rparr>], leg_ids = [''l1'', ''l9'']\<rparr>"

definition sample_itin_unpriced :: raw_itinerary where
  "sample_itin_unpriced = \<lparr>pricing_options = [], leg_ids = [''l1'']\<rparr>"

subsection \<open>Basic facts\<close>

lemma and_then_Inl [simp]: "and_then (Inl e) f = Inl e"
  by (simp add: and_then_def)

lemma and_then_Inr [simp]: "and_then (Inr v) f = f v"
  by (simp add: and_then_def)

lemma and_then_eq_Inr: "and_then r f = Inr y \<longleftrightarrow> (\<exists>v. r = Inr v \<and> f v = Inr y)"
  by (cases r) simp_all

lemma and_then_eq_Inl:
  "and_then r f = Inl e \<longleftrightarrow> r = Inl e \<or> (\<exists>v. r = Inr v \<and> f v = Inl e)"
  by (cases r) simp_all

lemma lookup_eq_Inr: "lookup table k = Inr v \<longleftrightarrow> table k = Some v"
  by (simp add: lookup_def split: option.splits)

lemma lookup_eq_Inl: "lookup table k = Inl e \<longleftrightarrow> table k = None \<and> e = KeyError k"
  by (auto simp: lookup_def split: option.splits)

lemma item_eq_Inr: "item xs i = Inr v \<longleftrightarrow> i < length xs \<and> v = xs ! i"
  by (auto simp: item_def)

lemma item_eq_Inl: "item xs i = Inl e \<longleftrightarrow> length xs \<le> i \<and> e = IndexError"
  by (auto simp: item_def)

lemma kept_Nil [simp]: "kept parser t [] = []"
  by (simp add: kept_def)

lemma kept_Cons:
  "kept parser t (itin # itins) =
     (case parse_itinerary parser t itin of Inr (Some f) \<Rightarrow> [f] | _ \<Rightarrow> []) @ kept parser t itins"
  by (simp add: kept_def)

lemma parse_loop_Inr:
  "parse_loop parser t itins acc = Inr fs \<longleftrightarrow>
     (\<forall>itin\<in>set itins. \<not> isl (parse_itinerary parser t itin)) \<and> fs = acc @ kept parser t itins"
proof (induction itins arbitrary: acc)
  case Nil
  show ?case by auto
next
  case (Cons itin itins)
  show ?case
  proof (cases "parse_itinerary parser t itin")
    case (Inl e)
    then show ?thesis by simp
  next
    case (Inr r)
    then show ?thesis
      by (cases r) (simp_all add: Cons.IH kept_Cons)
  qed
qed

lemma parse_loop_first_failure:
  assumes "\<forall>x\<in>set pre. \<not> isl (parse_itinerary parser t x)" and "parse_itinerary parser t itin = Inl e"
  shows "parse_loop parser t (pre @ itin # post) acc = Inl e"
  using assms
proof (induction pre arbitrary: acc)
  case Nil
  then show ?case by simp
next
  case (Cons x pre)
  then obtain r where r: "parse_itinerary parser t x = Inr r" by (cases "parse_itinerary parser t x") auto
  show ?case using Cons r by (cases r) simp_all
qed

lemma parse_loop_fails:
  assumes "itin \<in> set itins" and "isl (parse_itinerary parser t itin)"
  shows "\<exists>e. parse_loop parser t itins acc = Inl e"
proof (cases "parse_loop parser t itins acc")
  case (Inl e)
  then show ?thesis by blast
next
  case (Inr fs)
  then have "\<forall>itin\<in>set itins. \<not> isl (parse_itinerary parser t itin)" by (simp add: parse_loop_Inr)
  with assms show ?thesis by blast
qed

lemma kept_mem:
  "f \<in> set (kept parser t itins) \<longleftrightarrow> (\<exists>itin\<in>set itins. parse_itinerary parser t itin = Inr (Some f))"
  by (induction itins) (auto simp: kept_Cons split: sum.splits option.splits)

lemma parse_itinerary_Some:
  "parse_itinerary parser t itin = Inr (Some f) \<longleftrightarrow>
     pricing_options itin \<noteq> [] \<and> length (leg_ids itin) = 2 \<and>
     (\<exists>lo lr ob rt. legs_lookup t (leg_ids itin ! 0) = Some lo
        \<and> legs_lookup t (leg_ids itin ! 1) = Some lr
        \<and> format_leg parser t lo = Inr ob \<and> format_leg parser t lr = Inr rt
        \<and> f = \<lparr>price_usd = amount (price (pricing_options itin ! 0)), outbound = ob, return = rt\<rparr>)"
  by (auto simp: parse_itinerary_def and_then_eq_Inr item_eq_Inr lookup_eq_Inr)

lemma parse_itinerary_None:
  "parse_itinerary parser t itin = Inr None \<longleftrightarrow> pricing_options itin \<noteq> [] \<and> length (leg_ids itin) \<noteq> 2"
  by (auto simp: parse_itinerary_def and_then_eq_Inr item_eq_Inr lookup_eq_Inr)

lemma parse_itinerary_no_price:
  "pricing_options itin = [] \<Longrightarrow> parse_itinerary parser t itin = Inl IndexError"
  by (simp add: parse_itinerary_def item_def)

subsection \<open>Segments, legs and itineraries\<close>

lemma fromisoformat_Inl: "fromisoformat parser s = Inl e \<Longrightarrow> e = ValueError s"
  by (auto simp: fromisoformat_def split: option.splits if_splits)

lemma not_isl_iff: "\<not> isl r \<longleftrightarrow> (\<exists>v. r = Inr v)"
  by (cases r) simp_all

lemma expand_segment_Inr_iff:
  "(\<exists>s. expand_segment parser t sid = Inr s) \<longleftrightarrow> segment_resolves t sid \<and> segment_times_parse parser t sid"
  by (auto simp: expand_segment_def and_then_eq_Inr lookup_eq_Inr segment_resolves_def
      segment_times_parse_def not_isl_iff split: option.splits)

lemma expand_segments_Inr:
  "expand_segments parser t sids acc = Inr segs \<Longrightarrow>
     (\<forall>sid\<in>set sids. \<exists>s. expand_segment parser t sid = Inr s) \<and> length segs = length acc + length sids"
proof (induction sids arbitrary: acc)
  case Nil
  then show ?case by simp
next
  case (Cons sid sids)
  from Cons.prems obtain s where s: "expand_segment parser t sid = Inr s"
    and rest: "expand_segments parser t sids (acc @ [s]) = Inr segs"
    by (auto simp: and_then_eq_Inr)
  from Cons.IH [OF rest] s show ?case by simp
qed

lemma expand_segments_ok:
  "\<forall>sid\<in>set sids. \<exists>s. expand_segment parser t sid = Inr s \<Longrightarrow> \<exists>segs. expand_segments parser t sids acc = Inr segs"
proof (induction sids arbitrary: acc)
  case Nil
  show ?case by simp
next
  case (Cons sid sids)
  then obtain s where s: "expand_segment parser t sid = Inr s" by auto
  from Cons have "\<exists>segs. expand_segments parser t sids (acc @ [s]) = Inr segs" by simp
  with s show ?case by simp
qed

lemma expand_segments_Inr_iff:
  "(\<exists>segs. expand_segments parser t sids acc = Inr segs) \<longleftrightarrow>
     list_all (segment_resolves t) sids \<and> list_all (segment_times_parse parser t) sids"
proof -
  have "(\<exists>segs. expand_segments parser t sids acc = Inr segs) \<longleftrightarrow>
        (\<forall>sid\<in>set sids. \<exists>s. expand_segment parser t sid = Inr s)"
    using expand_segments_Inr expand_segments_ok by blast
  then show ?thesis by (auto simp: expand_segment_Inr_iff list_all_iff)
qed

lemma format_leg_Inr_iff:
  assumes "legs_lookup t lid = Some leg"
  shows "(\<exists>nl. format_leg parser t leg = Inr nl) \<longleftrightarrow> leg_resolves t lid \<and> leg_times_parse parser t lid"
proof -
  have "(\<exists>nl. format_leg parser t leg = Inr nl) \<longleftrightarrow>
        places_lookup t (l_origin_place_id leg) \<noteq> None
        \<and> places_lookup t (l_destination_place_id leg) \<noteq> None
        \<and> (\<exists>segs. expand_segments parser t (l_segment_ids leg) [] = Inr segs)
        \<and> \<not> isl (fromisoformat parser (l_departure leg)) \<and> \<not> isl (fromisoformat parser (l_arrival leg))"
    by (auto simp: format_leg_def and_then_eq_Inr lookup_eq_Inr not_isl_iff)
  then show ?thesis
    using assms by (auto simp: expand_segments_Inr_iff leg_resolves_def leg_times_parse_def)
qed

lemma format_leg_is_direct:
  "format_leg parser t leg = Inr nl \<Longrightarrow> is_direct nl = (length (leg_segments nl) = 1)"
  by (auto simp: format_leg_def and_then_eq_Inr)

lemma list_all_two: "length xs = 2 \<Longrightarrow> list_all P xs \<longleftrightarrow> P (xs ! 0) \<and> P (xs ! 1)"
proof -
  assume "length xs = 2"
  then obtain a b where "xs = [a, b]"
    by (cases xs; cases "tl xs") auto
  then show ?thesis by simp
qed

lemma parse_itinerary_Some_iff:
  "(\<exists>f. parse_itinerary parser t itin = Inr (Some f)) \<longleftrightarrow>
     pricing_options itin \<noteq> [] \<and> round_trip itin \<and> refs_resolve t itin \<and> times_parse parser t itin"
proof (cases "pricing_options itin \<noteq> [] \<and> length (leg_ids itin) = 2")
  case False
  then show ?thesis by (auto simp: parse_itinerary_Some round_trip_def)
next
  case True
  then have two: "length (leg_ids itin) = 2" by simp
  show ?thesis
  proof (cases "legs_lookup t (leg_ids itin ! 0)")
    case None
    then show ?thesis
      by (simp add: parse_itinerary_Some refs_resolve_def list_all_two [OF two] leg_resolves_def)
  next
    case lo: (Some lo)
    show ?thesis
    proof (cases "legs_lookup t (leg_ids itin ! 1)")
      case None
      then show ?thesis
        by (simp add: parse_itinerary_Some refs_resolve_def list_all_two [OF two] leg_resolves_def)
    next
      case lr: (Some lr)
      have "(\<exists>f. parse_itinerary parser t itin = Inr (Some f)) \<longleftrightarrow>
            (\<exists>ob. format_leg parser t lo = Inr ob) \<and> (\<exists>rt. format_leg parser t lr = Inr rt)"
        using True lo lr by (simp add: parse_itinerary_Some) blast
      also have "\<dots> \<longleftrightarrow> (leg_resolves t (leg_ids itin ! 0) \<and> leg_times_parse parser t (leg_ids itin ! 0))
            \<and> (leg_resolves t (leg_ids itin ! 1) \<and> leg_times_parse parser t (leg_ids itin ! 1))"
        by (simp only: format_leg_Inr_iff [OF lo] format_leg_Inr_iff [OF lr])
      finally show ?thesis
        using True by (auto simp: round_trip_def refs_resolve_def times_parse_def list_all_two [OF two])
    qed
  qed
qed

lemma parse_loop_Inl:
  "parse_loop parser t itins acc = Inl e \<Longrightarrow> \<exists>itin\<in>set itins. parse_itinerary parser t itin = Inl e"
proof (induction itins arbitrary: acc)
  case Nil
  then show ?case by simp
next
  case (Cons itin itins)
  then show ?case by (auto split: sum.splits option.splits)
qed

lemma parse_itinerary_cases:
  "parse_itinerary parser t itin = Inr None \<or> (\<exists>f. parse_itinerary parser t itin = Inr (Some f))
     \<or> (\<exists>e. parse_itinerary parser t itin = Inl e)"
  by (cases "parse_itinerary parser t itin") auto

lemma unresolved_round_trip_fails:
  assumes "round_trip itin" and "\<not> refs_resolve t itin"
  shows "isl (parse_itinerary parser t itin)"
proof -
  have "parse_itinerary parser t itin \<noteq> Inr None"
    using assms(1) by (simp add: parse_itinerary_None round_trip_def)
  moreover have "\<not> (\<exists>f. parse_itinerary parser t itin = Inr (Some f))"
    using assms(2) by (simp add: parse_itinerary_Some_iff)
  ultimately show ?thesis
    using parse_itinerary_cases [of parser t itin] by auto
qed

subsection \<open>The loop over the itineraries\<close>

lemma parse_flights_Inr:
  "parse_flights parser d = Inr fs \<longleftrightarrow>
     (\<forall>itin\<in>set (get_or_empty (itineraries d)). \<not> isl (parse_itinerary parser (build_tables d) itin))
     \<and> fs = kept parser (build_tables d) (get_or_empty (itineraries d))"
  by (simp add: parse_flights_def parse_loop_Inr)

lemma kept_round_trips:
  "\<forall>itin\<in>set itins. \<not> isl (parse_itinerary parser t itin) \<Longrightarrow>
     map (\<lambda>f. Inr (Some f)) (kept parser t itins) = map (parse_itinerary parser t) (filter round_trip itins)"
proof (induction itins)
  case Nil
  show ?case by simp
next
  case (Cons itin itins)
  then have IH: "map (\<lambda>f. Inr (Some f)) (kept parser t itins) = map (parse_itinerary parser t) (filter round_trip itins)"
    by simp
  from Cons.prems obtain r where r: "parse_itinerary parser t itin = Inr r"
    by (auto simp: not_isl_iff)
  show ?case
  proof (cases r)
    case None
    with r have "\<not> round_trip itin" by (simp add: parse_itinerary_None round_trip_def)
    with r None IH show ?thesis by (simp add: kept_Cons)
  next
    case (Some f)
    with r have "round_trip itin" by (simp add: parse_itinerary_Some round_trip_def)
    with r Some IH show ?thesis by (simp add: kept_Cons)
  qed
qed

lemma kept_prices:
  "\<forall>itin\<in>set itins. \<not> isl (parse_itinerary parser t itin) \<Longrightarrow>
     map price_usd (kept parser t itins) =
       map (\<lambda>itin. amount (price (pricing_options itin ! 0))) (filter round_trip itins)"
proof (induction itins)
  case Nil
  show ?case by simp
next
  case (Cons itin itins)
  then have IH: "map price_usd (kept parser t itins) =
       map (\<lambda>itin. amount (price (pricing_options itin ! 0))) (filter round_trip itins)"
    by simp
  from Cons.prems obtain r where r: "parse_itinerary parser t itin = Inr r"
    by (auto simp: not_isl_iff)
  show ?case
  proof (cases r)
    case None
    with r have "\<not> round_trip itin" by (simp add: parse_itinerary_None round_trip_def)
    with r None IH show ?thesis by (simp add: kept_Cons)
  next
    case (Some f)
    with r have "round_trip itin" and "price_usd f = amount (price (pricing_options itin ! 0))"
      by (auto simp: parse_itinerary_Some round_trip_def)
    with r Some IH show ?thesis by (simp add: kept_Cons)
  qed
qed

lemma build_tables_itineraries [simp]:
  "build_tables (d\<lparr>itineraries := x\<rparr>) = build_tables d"
  by (simp add: build_tables_def)

subsection \<open>Which exception a failing itinerary raises\<close>

lemma fromisoformat_Inl_iff:
  "fromisoformat parser s = Inl e \<longleftrightarrow> e = ValueError s \<and> isl (fromisoformat parser s)"
  by (cases "fromisoformat parser s") (auto dest: fromisoformat_Inl)

lemma lookup_Inl_absent:
  "lookup table k = Inl e \<Longrightarrow> e = KeyError k \<and> (kd, k) \<in> set (absent table kd k)"
  by (simp add: lookup_eq_Inl absent_def)

lemma absent_Some [simp]: "table k = Some v \<Longrightarrow> absent table kd k = []"
  by (simp add: absent_def)

lemma expand_segment_Inl:
  assumes "expand_segment parser t sid = Inl e"
  shows "(\<exists>kd k. e = KeyError k \<and> (kd, k) \<in> set (segment_missing t sid))
         \<or> (\<exists>s. e = ValueError s \<and> \<not> segment_times_parse parser t sid)"
proof (cases "segments_lookup t sid")
  case None
  with assms have "e = KeyError sid"
    by (simp add: expand_segment_def lookup_def)
  with None show ?thesis by (auto simp: segment_missing_def)
next
  case (Some seg)
  with assms consider
      "lookup (carriers_lookup t) (s_marketing_carrier_id seg) = Inl e"
    | "lookup (places_lookup t) (s_origin_place_id seg) = Inl e"
    | "lookup (places_lookup t) (s_destination_place_id seg) = Inl e"
    | "fromisoformat parser (s_departure seg) = Inl e"
    | "fromisoformat parser (s_arrival seg) = Inl e"
    by (auto simp: expand_segment_def lookup_def [of "segments_lookup t"] and_then_eq_Inl)
  then show ?thesis
  proof cases
    case 1
    from lookup_Inl_absent [OF 1, of Carrier] Some show ?thesis
      by (auto simp: segment_missing_def)
  next
    case 2
    from lookup_Inl_absent [OF 2, of Place] Some show ?thesis
      by (auto simp: segment_missing_def)
  next
    case 3
    from lookup_Inl_absent [OF 3, of Place] Some show ?thesis
      by (auto simp: segment_missing_def)
  next
    case 4
    with Some show ?thesis
      by (auto simp: segment_times_parse_def fromisoformat_Inl_iff)
  next
    case 5
    with Some show ?thesis
      by (auto simp: segment_times_parse_def fromisoformat_Inl_iff)
  qed
qed

lemma expand_segments_Inl:
  "expand_segments parser t sids acc = Inl e \<Longrightarrow>
     (\<exists>kd k. e = KeyError k \<and> (kd, k) \<in> set (concat (map (segment_missing t) sids)))
     \<or> (\<exists>s. e = ValueError s \<and> \<not> list_all (segment_times_parse parser t) sids)"
proof (induction sids arbitrary: acc)
  case Nil
  then show ?case by simp
next
  case (Cons sid sids)
  from Cons.prems consider "expand_segment parser t sid = Inl e"
    | s where "expand_segments parser t sids (acc @ [s]) = Inl e"
    by (auto simp: and_then_eq_Inl)
  then show ?case
  proof cases
    case 1
    from expand_segment_Inl [OF 1] show ?thesis by auto
  next
    case 2
    from Cons.IH [OF 2] show ?thesis by auto
  qed
qed

lemma format_leg_Inl:
  assumes "legs_lookup t lid = Some leg" and "format_leg parser t leg = Inl e"
  shows "(\<exists>kd k. e = KeyError k \<and> (kd, k) \<in> set (leg_missing t lid))
         \<or> (\<exists>s. e = ValueError s \<and> \<not> leg_times_parse parser t lid)"
proof -
  from assms(2) consider
      "lookup (places_lookup t) (l_origin_place_id leg) = Inl e"
    | "lookup (places_lookup t) (l_destination_place_id leg) = Inl e"
    | "expand_segments parser t (l_segment_ids leg) [] = Inl e"
    | "fromisoformat parser (l_departure leg) = Inl e"
    | "fromisoformat parser (l_arrival leg) = Inl e"
    by (auto simp: format_leg_def and_then_eq_Inl)
  then show ?thesis
  proof cases
    case 1
    from lookup_Inl_absent [OF 1, of Place] assms(1) show ?thesis
      by (auto simp: leg_missing_def)
  next
    case 2
    from lookup_Inl_absent [OF 2, of Place] assms(1) show ?thesis
      by (auto simp: leg_missing_def)
  next
    case 3
    from expand_segments_Inl [OF 3] assms(1) show ?thesis
      by (auto simp: leg_missing_def leg_times_parse_def)
  next
    case 4
    with assms(1) show ?thesis
      by (auto simp: leg_times_parse_def fromisoformat_Inl_iff)
  next
    case 5
    with assms(1) show ?thesis
      by (auto simp: leg_times_parse_def fromisoformat_Inl_iff)
  qed
qed

lemma missing_refs_two:
  "length (leg_ids itin) = 2 \<Longrightarrow>
     set (missing_refs t itin) = set (leg_missing t (leg_ids itin ! 0)) \<union> set (leg_missing t (leg_ids itin ! 1))"
proof -
  assume "length (leg_ids itin) = 2"
  then obtain a b where "leg_ids itin = [a, b]"
    by (cases "leg_ids itin"; cases "tl (leg_ids itin)") auto
  then show ?thesis by (simp add: missing_refs_def)
qed

lemma parse_itinerary_Inl:
  assumes "parse_itinerary parser t itin = Inl e"
  shows "(e = IndexError \<and> pricing_options itin = [])
         \<or> (\<exists>kd k. e = KeyError k \<and> round_trip itin \<and> (kd, k) \<in> set (missing_refs t itin))
         \<or> (\<exists>s. e = ValueError s \<and> \<not> times_parse parser t itin)"
proof (cases "pricing_options itin = []")
  case True
  with assms show ?thesis by (simp add: parse_itinerary_no_price)
next
  case False
  with assms have two: "length (leg_ids itin) = 2"
    by (auto simp: parse_itinerary_def and_then_eq_Inl item_eq_Inl item_eq_Inr split: if_splits)
  then have rt: "round_trip itin" by (simp add: round_trip_def)
  note ms = missing_refs_two [OF two, of t]
  from assms False two consider
      "lookup (legs_lookup t) (leg_ids itin ! 0) = Inl e"
    | "lookup (legs_lookup t) (leg_ids itin ! 1) = Inl e"
    | lo where "legs_lookup t (leg_ids itin ! 0) = Some lo" and "format_leg parser t lo = Inl e"
    | lr where "legs_lookup t (leg_ids itin ! 1) = Some lr" and "format_leg parser t lr = Inl e"
    by (auto simp: parse_itinerary_def and_then_eq_Inl item_eq_Inl item_eq_Inr lookup_eq_Inr)
  then show ?thesis
  proof cases
    case 1
    then have "e = KeyError (leg_ids itin ! 0)"
      and "(Leg, leg_ids itin ! 0) \<in> set (leg_missing t (leg_ids itin ! 0))"
      by (auto simp: lookup_eq_Inl leg_missing_def)
    with rt ms show ?thesis by auto
  next
    case 2
    then have "e = KeyError (leg_ids itin ! 1)"
      and "(Leg, leg_ids itin ! 1) \<in> set (leg_missing t (leg_ids itin ! 1))"
      by (auto simp: lookup_eq_Inl leg_missing_def)
    with rt ms show ?thesis by auto
  next
    case 3
    from format_leg_Inl [OF 3] rt ms show ?thesis
      by (auto simp: times_parse_def list_all_two [OF two])
  next
    case 4
    from format_leg_Inl [OF 4] rt ms show ?thesis
      by (auto simp: times_parse_def list_all_two [OF two])
  qed
qed

text \<open>The references resolve exactly when none is missing.\<close>

lemma segment_resolves_iff: "segment_resolves t sid \<longleftrightarrow> segment_missing t sid = []"
  by (auto simp: segment_resolves_def segment_missing_def absent_def split: option.splits)

lemma leg_resolves_iff: "leg_resolves t lid \<longleftrightarrow> leg_missing t lid = []"
  by (auto simp: leg_resolves_def leg_missing_def absent_def list_all_iff segment_resolves_iff
      split: option.splits)

lemma refs_resolve_iff: "refs_resolve t itin \<longleftrightarrow> missing_refs t itin = []"
  by (auto simp: refs_resolve_def missing_refs_def list_all_iff leg_resolves_iff)

subsection \<open>The sample payload, evaluated\<close>

lemmas sample_defs = sample_places_def sample_carriers_def sample_segments_def sample_legs_def

lemma sample_leg_ids:
  "l_id sample_leg_out = ''l1''" "l_id sample_leg_ret = ''l2''"
  by (simp_all add: sample_leg_out_def sample_leg_ret_def)

lemma sample_tables:
  "build_tables sample_payload =
     \<lparr>legs_lookup = [''l1'' \<mapsto> sample_leg_out, ''l2'' \<mapsto> sample_leg_ret],
      places_lookup = [''p1'' \<mapsto> sample_places ! 0, ''p2'' \<mapsto> sample_places ! 1, ''p3'' \<mapsto> sample_places ! 2],
      carriers_lookup = [''c1'' \<mapsto> sample_carriers ! 0],
      segments_lookup = [''s1'' \<mapsto> sample_segments ! 0, ''s2'' \<mapsto> sample_segments ! 1, ''s3'' \<mapsto> sample_segments ! 2]\<rparr>"
  by (simp add: build_tables_def build_lookup_def get_or_empty_def sample_payload_def sample_defs sample_leg_ids)

lemma iso_simps:
  "fromisoformat sample_iso ''2025-10-01T08:30:00'' = Inr (instant 2025 10 1 8 30)"
  "fromisoformat sample_iso ''2025-10-01T14:40:00'' = Inr (instant 2025 10 1 14 40)"
  "fromisoformat sample_iso ''2025-10-01T15:30:00'' = Inr (instant 2025 10 1 15 30)"
  "fromisoformat sample_iso ''2025-10-01T18:45:00'' = Inr (instant 2025 10 1 18 45)"
  "fromisoformat sample_iso ''2025-10-08T12:00:00'' = Inr (instant 2025 10 8 12 0)"
  "fromisoformat sample_iso ''2025-10-08T15:20:00'' = Inr (instant 2025 10 8 15 20)"
  by (simp_all add: fromisoformat_def sample_iso_def)

lemma sample_format_leg_out:
  "format_leg sample_iso (build_tables sample_payload) sample_leg_out = Inr sample_outbound"
  by (simp add: sample_tables format_leg_def expand_segment_def lookup_def sample_defs sample_leg_out_def sample_leg_ret_def iso_simps sample_outbound_def)

lemma sample_format_leg_ret:
  "format_leg sample_iso (build_tables sample_payload) sample_leg_ret = Inr sample_return"
  by (simp add: sample_tables format_leg_def expand_segment_def lookup_def sample_defs sample_leg_out_def sample_leg_ret_def iso_simps sample_return_def)

lemma sample_legs_lookup:
  "legs_lookup (build_tables sample_payload) ''l1'' = Some sample_leg_out"
  "legs_lookup (build_tables sample_payload) ''l2'' = Some sample_leg_ret"
  by (simp_all add: sample_tables)

lemma sample_parse_itinerary:
  "parse_itinerary sample_iso (build_tables sample_payload) sample_itin_1 = Inr (Some sample_flight_1)"
  "parse_itinerary sample_iso (build_tables sample_payload) sample_itin_one_way = Inr None"
  "parse_itinerary sample_iso (build_tables sample_payload) sample_itin_2 = Inr (Some sample_flight_2)"
  by (simp_all add: parse_itinerary_def item_def lookup_def sample_legs_lookup
      sample_format_leg_out sample_format_leg_ret
      sample_itin_1_def sample_itin_2_def sample_itin_one_way_def sample_flight_1_def sample_flight_2_def)

lemma parse_flights_sample:
  "parse_flights sample_iso sample_payload = Inr [sample_flight_1, sample_flight_2]"
proof -
  have "get_or_empty (itineraries sample_payload) = [sample_itin_1, sample_itin_one_way, sample_itin_2]"
    by (simp add: sample_payload_def get_or_empty_def)
  then show ?thesis
    by (simp add: parse_flights_def sample_parse_itinerary)
qed

lemma sample_round_trips:
  "round_trip sample_itin_1" "\<not> round_trip sample_itin_one_way" "round_trip sample_itin_2"
  "round_trip sample_itin_dangling" "\<not> round_trip sample_itin_unpriced"
  by (simp_all add: round_trip_def sample_itin_1_def sample_itin_one_way_def sample_itin_2_def
      sample_itin_dangling_def sample_itin_unpriced_def)

lemma sample_itineraries:
  "get_or_empty (itineraries sample_payload) = [sample_itin_1, sample_itin_one_way, sample_itin_2]"
  by (simp add: sample_payload_def get_or_empty_def)

lemma sample_priced:
  "pricing_options sample_itin_1 \<noteq> []" "pricing_options sample_itin_one_way \<noteq> []"
  "pricing_options sample_itin_2 \<noteq> []" "pricing_options sample_itin_dangling \<noteq> []"
  "pricing_options sample_itin_unpriced = []"
  by (simp_all add: sample_itin_1_def sample_itin_one_way_def sample_itin_2_def
      sample_itin_dangling_def sample_itin_unpriced_def)

lemma sample_resolves:
  "refs_resolve (build_tables sample_payload) sample_itin_1 \<and> times_parse sample_iso (build_tables sample_payload) sample_itin_1"
  "refs_resolve (build_tables sample_payload) sample_itin_2 \<and> times_parse sample_iso (build_tables sample_payload) sample_itin_2"
  using parse_itinerary_Some_iff [of sample_iso "build_tables sample_payload" sample_itin_1]
    parse_itinerary_Some_iff [of sample_iso "build_tables sample_payload" sample_itin_2]
  by (simp_all add: sample_parse_itinerary)

lemma sample_dangling_unresolved:
  "\<not> refs_resolve (build_tables sample_payload) sample_itin_dangling"
  by (simp add: refs_resolve_def leg_resolves_def sample_tables sample_itin_dangling_def)

lemma sample_dangling_times:
  "times_parse sample_iso (build_tables sample_payload) sample_itin_dangling"
  by (simp add: times_parse_def leg_times_parse_def segment_times_parse_def sample_tables
      sample_itin_dangling_def sample_leg_out_def sample_segments_def iso_simps)

lemma sample_missing:
  "missing_refs (build_tables sample_payload) sample_itin_dangling = [(Leg, ''l9'')]"
  "missing_refs (build_tables sample_payload) sample_itin_2 = []"
  by (simp_all add: missing_refs_def leg_missing_def segment_missing_def absent_def sample_tables
      sample_itin_dangling_def sample_itin_2_def sample_leg_out_def sample_leg_ret_def
      sample_segments_def sample_places_def sample_carriers_def)

lemma sample_parse_dangling:
  "parse_itinerary sample_iso (build_tables sample_payload) sample_itin_dangling = Inl (KeyError ''l9'')"
  by (simp add: parse_itinerary_def item_def lookup_def sample_legs_lookup sample_tables
      sample_itin_dangling_def)

lemma sample_parse_unpriced:
  "parse_itinerary sample_iso (build_tables sample_payload) sample_itin_unpriced = Inl IndexError"
  by (simp add: parse_itinerary_no_price sample_priced)

subsection \<open>Rendering of prices, times and legs\<close>

lemma round_half_even_bound: "\<bar>y - of_int (round_half_even y)\<bar> \<le> 1 / 2"
proof -
  have "of_int \<lfloor>y\<rfloor> \<le> y" "y < of_int \<lfloor>y\<rfloor> + 1" by linarith+
  then show ?thesis
    by (auto simp: round_half_even_def Let_def)
qed

lemma round_half_even_nonneg: "0 \<le> y \<Longrightarrow> 0 \<le> round_half_even y"
  by (auto simp: round_half_even_def Let_def)

lemma dec_digit: "n < 10 \<Longrightarrow> dec n = [digit n]"
  by (subst dec.simps) simp

lemma zfill2_dec: "n < 100 \<Longrightarrow> zfill 2 (dec n) = [digit (n div 10), digit (n mod 10)]"
proof (cases "n < 10")
  case True
  then show ?thesis by (simp add: dec_digit zfill_def digit_def)
next
  case False
  assume "n < 100"
  then have "n div 10 < 10" by simp
  then have "dec n = [digit (n div 10), digit (n mod 10)]"
    using False by (subst dec.simps) (simp add: dec_digit)
  then show ?thesis by (simp add: zfill_def)
qed

lemma format_2f_two_decimals:
  "\<exists>n. format_2f x =
          (if x < 0 then ''-'' else []) @ dec (n div 100) @ ''.''
          @ [digit (n mod 100 div 10), digit (n mod 10)]
       \<and> \<bar>\<bar>x\<bar> * 100 - of_nat n\<bar> \<le> 1 / 2"
proof -
  let ?z = "round_half_even (\<bar>x\<bar> * 100)"
  let ?n = "nat ?z"
  have nn: "0 \<le> ?z" by (rule round_half_even_nonneg) simp
  have "?n mod 100 < 100" by simp
  then have "zfill 2 (dec (?n mod 100)) = [digit (?n mod 100 div 10), digit (?n mod 100 mod 10)]"
    by (rule zfill2_dec)
  moreover have "?n mod 100 mod 10 = ?n mod 10"
    by (simp add: mod_mod_cancel)
  ultimately have 1: "format_2f x =
          (if x < 0 then ''-'' else []) @ dec (?n div 100) @ ''.''
          @ [digit (?n mod 100 div 10), digit (?n mod 10)]"
    by (simp add: format_2f_def Let_def)
  have "(of_nat ?n :: rat) = of_int ?z" using nn by simp
  then have 2: "\<bar>\<bar>x\<bar> * 100 - of_nat ?n\<bar> \<le> 1 / 2"
    using round_half_even_bound [of "\<bar>x\<bar> * 100"] by (simp only:)
  from 1 2 show ?thesis by blast
qed

lemma strftime_date_clock12: "strftime dt ''%Y-%m-%d %I:%M %p'' = date_clock12 dt"
  by (simp add: directive_def date_clock12_def clock12_def hour12_def)

lemma format_leg_humans_eq:
  "format_leg_humans leg name =
     leg_block_head name leg
     @ (''- Duration: '' @ str_int (duration leg) @ '' minutes'' @ newline
        @ ''- Direct Flight: '' @ (if is_direct leg then ''Yes'' else ''No'') @ newline
        @ join newline (''- Segments:'' # map segment_line (leg_segments leg)))"
  by (simp add: format_leg_humans_def leg_block_head_def strftime_date_clock12
      del: strftime.simps)

lemma format_leg_humans_head:
  "\<exists>rest. format_leg_humans leg name = leg_block_head name leg @ rest"
  using format_leg_humans_eq by (rule exI)

lemma format_flight_for_humans_eq:
  "format_flight_for_humans f =
     ''Price: $'' @ format_2f (price_usd f) @ newline @ newline
     @ format_leg_humans (outbound f) ''Outbound'' @ newline @ newline
     @ format_leg_humans (return f) ''Return''"
  by (simp add: format_flight_for_humans_def)

lemma sample_price_text: "format_2f (price_usd sample_flight_2) = ''387.20''"
  by (simp add: sample_flight_2_def format_2f_def round_half_even_def dec.simps zfill_def digit_def)

lemma sample_outbound_head:
  "leg_block_head ''Outbound'' (outbound sample_flight_2) =
     ''Outbound Flight:'' @ newline @ ''- From SFO to JFK'' @ newline
     @ ''- Departure: 2025-10-01 08:30 AM'' @ newline
     @ ''- Arrival: 2025-10-01 06:45 PM'' @ newline"
  by (simp add: sample_flight_2_def sample_outbound_def leg_block_head_def date_clock12_def
      clock12_def instant_def dec.simps zfill_def digit_def)

lemma sample_return_head:
  "leg_block_head ''Return'' (return sample_flight_2) =
     ''Return Flight:'' @ newline @ ''- From JFK to SFO'' @ newline
     @ ''- Departure: 2025-10-08 12:00 PM'' @ newline
     @ ''- Arrival: 2025-10-08 03:20 PM'' @ newline"
  by (simp add: sample_flight_2_def sample_return_def leg_block_head_def date_clock12_def
      clock12_def instant_def dec.simps zfill_def digit_def)

section \<open>Selection\<close>

lemma min_by_split:
  "\<exists>pre post. b # xs = pre @ min_by key b xs # post
     \<and> (\<forall>y\<in>set pre. key (min_by key b xs) < key y)
     \<and> (\<forall>y\<in>set post. key (min_by key b xs) \<le> key y)"
proof (induction xs arbitrary: b)
  case Nil
  have "[b] = [] @ min_by key b [] # [] \<and> (\<forall>y\<in>set []. key (min_by key b []) < key y)
     \<and> (\<forall>y\<in>set []. key (min_by key b []) \<le> key y)" by simp
  then show ?case by blast
next
  case (Cons x xs)
  show ?case
  proof (cases "key x < key b")
    case True
    then have eq: "min_by key b (x # xs) = min_by key x xs" by simp
    from Cons.IH [of x] obtain pre post where
      s: "x # xs = pre @ min_by key x xs # post"
      and p: "\<forall>y\<in>set pre. key (min_by key x xs) < key y"
      and q: "\<forall>y\<in>set post. key (min_by key x xs) \<le> key y" by blast
    have le: "key (min_by key x xs) \<le> key x"
    proof (cases pre)
      case Nil
      have "hd (x # xs) = hd (pre @ min_by key x xs # post)" using s by (rule arg_cong)
      then have "min_by key x xs = x" using Nil by simp
      then show ?thesis by simp
    next
      case (Cons a pre')
      have "hd (x # xs) = hd (pre @ min_by key x xs # post)" using s by (rule arg_cong)
      then have "x \<in> set pre" using Cons by simp
      with p show ?thesis by (simp add: less_imp_le)
    qed
    have 1: "b # x # xs = (b # pre) @ min_by key x xs # post" using s by simp
    have 2: "\<forall>y\<in>set (b # pre). key (min_by key x xs) < key y"
      using p le True by auto
    show ?thesis unfolding eq using 1 2 q by blast
  next
    case False
    then have eq: "min_by key b (x # xs) = min_by key b xs" by simp
    from Cons.IH [of b] obtain pre post where
      s: "b # xs = pre @ min_by key b xs # post"
      and p: "\<forall>y\<in>set pre. key (min_by key b xs) < key y"
      and q: "\<forall>y\<in>set post. key (min_by key b xs) \<le> key y" by blast
    show ?thesis
    proof (cases pre)
      case Nil
      have "hd (b # xs) = hd (pre @ min_by key b xs # post)" using s by (rule arg_cong)
      then have m: "min_by key b xs = b" using Nil by simp
      have "tl (b # xs) = tl (pre @ min_by key b xs # post)" using s by (rule arg_cong)
      then have xs: "xs = post" using Nil by simp
      have 1: "b # x # xs = [] @ min_by key b xs # (x # post)" using xs m by simp
      have 2: "\<forall>y\<in>set (x # post). key (min_by key b xs) \<le> key y"
        using q m False by auto
      have 3: "\<forall>y\<in>set []. key (min_by key b xs) < key y" by simp
      show ?thesis unfolding eq using 1 2 3 by blast
    next
      case (Cons a pre')
      have "hd (b # xs) = hd (pre @ min_by key b xs # post)" using s by (rule arg_cong)
      then have a: "a = b" using Cons by simp
      have "tl (b # xs) = tl (pre @ min_by key b xs # post)" using s by (rule arg_cong)
      then have xs: "xs = pre' @ min_by key b xs # post" using Cons by simp
      have lt: "key (min_by key b xs) < key b" using p Cons a by simp
      have 1: "b # x # xs = (b # x # pre') @ min_by key b xs # post" using xs by simp
      have 2: "\<forall>y\<in>set (b # x # pre'). key (min_by key b xs) < key y"
        using p Cons a lt False by auto
      show ?thesis unfolding eq using 1 2 q by blast
    qed
  qed
qed

text \<open>
  Claim C1. On a non-empty sequence \<^verbatim>\<open>get_cheapest_flight\<close> returns an entry whose
  \<^verbatim>\<open>price_usd\<close> is the minimum over the sequence, and every entry before the
  returned one is strictly dearer, so of several cheapest entries the earliest is
  returned; on the empty sequence it returns \<open>None\<close>.
\<close>

theorem get_cheapest_flight_min:
  "get_cheapest_flight [] = None \<and>
   (flights \<noteq> [] \<longrightarrow>
     (\<exists>i<length flights. get_cheapest_flight flights = Some (flights ! i)
        \<and> price_usd (flights ! i) = Min (price_usd ` set flights)
        \<and> (\<forall>j<i. price_usd (flights ! i) < price_usd (flights ! j))))"
proof (cases flights)
  case Nil
  then show ?thesis by simp
next
  case (Cons f fs)
  obtain pre post where
    s: "f # fs = pre @ min_by price_usd f fs # post"
    and p: "\<forall>y\<in>set pre. price_usd (min_by price_usd f fs) < price_usd y"
    and q: "\<forall>y\<in>set post. price_usd (min_by price_usd f fs) \<le> price_usd y"
    using min_by_split [of f fs price_usd] by blast
  let ?m = "min_by price_usd f fs"
  let ?i = "length pre"
  have fl: "flights = pre @ ?m # post" using Cons s by simp
  have i: "?i < length flights" by (subst fl) simp
  have at: "flights ! ?i = ?m" by (subst fl) simp
  have all: "\<forall>y\<in>set flights. price_usd ?m \<le> price_usd y"
  proof
    fix y assume "y \<in> set flights"
    then have "y \<in> set pre \<or> y = ?m \<or> y \<in> set post" by (subst (asm) fl) auto
    then show "price_usd ?m \<le> price_usd y" using p q by (auto simp: less_imp_le)
  qed
  have mem: "?m \<in> set flights" by (subst fl) simp
  have mn: "price_usd ?m = Min (price_usd ` set flights)"
  proof (rule Min_eqI [symmetric])
    show "finite (price_usd ` set flights)" by simp
    show "\<And>y. y \<in> price_usd ` set flights \<Longrightarrow> price_usd ?m \<le> y" using all by auto
    show "price_usd ?m \<in> price_usd ` set flights" using mem by (rule imageI)
  qed
  have g: "get_cheapest_flight flights = Some ?m" using Cons by simp
  have before: "\<forall>j<?i. price_usd ?m < price_usd (flights ! j)"
  proof (intro allI impI)
    fix j assume j: "j < ?i"
    then have "flights ! j = pre ! j" by (subst fl) (simp add: nth_append)
    moreover have "pre ! j \<in> set pre" using j by simp
    ultimately show "price_usd ?m < price_usd (flights ! j)" using p by simp
  qed
  have "?i < length flights \<and> get_cheapest_flight flights = Some (flights ! ?i)
        \<and> price_usd (flights ! ?i) = Min (price_usd ` set flights)
        \<and> (\<forall>j<?i. price_usd (flights ! ?i) < price_usd (flights ! j))"
    unfolding at using i mn before g by simp
  then have "\<exists>i<length flights. get_cheapest_flight flights = Some (flights ! i)
        \<and> price_usd (flights ! i) = Min (price_usd ` set flights)
        \<and> (\<forall>j<i. price_usd (flights ! i) < price_usd (flights ! j))"
    by (rule_tac x = "?i" in exI)
  then show ?thesis by simp
qed

theorem get_cheapest_flight_min_witness:
  "[sample_flight_1, sample_flight_2, sample_flight_2] \<noteq> [] \<and>
   (\<exists>i<length [sample_flight_1, sample_flight_2, sample_flight_2].
      get_cheapest_flight [sample_flight_1, sample_flight_2, sample_flight_2]
        = Some ([sample_flight_1, sample_flight_2, sample_flight_2] ! i)
      \<and> price_usd ([sample_flight_1, sample_flight_2, sample_flight_2] ! i)
        = Min (price_usd ` set [sample_flight_1, sample_flight_2, sample_flight_2])
      \<and> (\<forall>j<i. price_usd ([sample_flight_1, sample_flight_2, sample_flight_2] ! i)
                 < price_usd ([sample_flight_1, sample_flight_2, sample_flight_2] ! j)))"
proof -
  let ?fs = "[sample_flight_1, sample_flight_2, sample_flight_2]"
  have ne: "?fs \<noteq> []" by simp
  show ?thesis
    using ne conjunct2 [OF get_cheapest_flight_min [of ?fs], THEN mp, OF ne] by (rule conjI)
qed

section \<open>Normalisation: unresolved references\<close>

text \<open>
  Claim C2, as the code has it. A round trip with a reference that does not resolve makes
  the whole call of \<^verbatim>\<open>parse_flights\<close> fail: no itinerary of the batch is returned.
  When the call raises \<^verbatim>\<open>KeyError\<close>, the key it carries is an identifier that a round
  trip of the batch refers to and that is absent from the table of its kind; the
  exception carries the identifier only. The failure is such a \<^verbatim>\<open>KeyError\<close> whenever
  every itinerary of the payload has a pricing option and timestamps that the library
  parses.
\<close>

theorem unresolved_reference_aborts_batch:
  assumes "itin \<in> set (get_or_empty (itineraries d))" and "round_trip itin"
    and "\<not> refs_resolve (build_tables d) itin"
  shows "\<exists>e. parse_flights parser d = Inl e
           \<and> (\<forall>k. e = KeyError k \<longrightarrow>
                 (\<exists>x\<in>set (get_or_empty (itineraries d)).
                    round_trip x \<and> (\<exists>kd. (kd, k) \<in> set (missing_refs (build_tables d) x))))
           \<and> ((\<forall>x\<in>set (get_or_empty (itineraries d)).
                  pricing_options x \<noteq> [] \<and> times_parse parser (build_tables d) x)
                \<longrightarrow> (\<exists>k. e = KeyError k))"
proof -
  let ?t = "build_tables d" and ?itins = "get_or_empty (itineraries d)"
  have "isl (parse_itinerary parser ?t itin)"
    using assms(2,3) by (rule unresolved_round_trip_fails)
  with assms(1) obtain e where e: "parse_flights parser d = Inl e"
    unfolding parse_flights_def using parse_loop_fails by blast
  then obtain x where x: "x \<in> set ?itins" and xe: "parse_itinerary parser ?t x = Inl e"
    unfolding parse_flights_def using parse_loop_Inl by blast
  note cases = parse_itinerary_Inl [OF xe]
  have 1: "\<forall>k. e = KeyError k \<longrightarrow>
      (\<exists>x\<in>set ?itins. round_trip x \<and> (\<exists>kd. (kd, k) \<in> set (missing_refs ?t x)))"
    using cases x by auto
  have 2: "\<exists>k. e = KeyError k"
    if "\<forall>x\<in>set ?itins. pricing_options x \<noteq> [] \<and> times_parse parser ?t x"
    using cases that x by auto
  from e 1 2 show ?thesis by blast
qed

theorem unresolved_reference_aborts_batch_witness:
  "round_trip sample_itin_dangling
   \<and> \<not> refs_resolve (build_tables sample_payload) sample_itin_dangling
   \<and> missing_refs (build_tables sample_payload) sample_itin_dangling = [(Leg, ''l9'')]
   \<and> parse_flights sample_iso
        (sample_payload\<lparr>itineraries := Some [sample_itin_dangling, sample_itin_2]\<rparr>)
       = Inl (KeyError ''l9'')"
proof -
  let ?d = "sample_payload\<lparr>itineraries := Some [sample_itin_dangling, sample_itin_2]\<rparr>"
  have h1: "sample_itin_dangling \<in> set (get_or_empty (itineraries ?d))"
    by (simp add: get_or_empty_def)
  have h2: "round_trip sample_itin_dangling"
    by (rule sample_round_trips)
  have h3: "\<not> refs_resolve (build_tables ?d) sample_itin_dangling"
    by (simp add: sample_dangling_unresolved)
  have ok: "\<forall>x\<in>set (get_or_empty (itineraries ?d)).
      pricing_options x \<noteq> [] \<and> times_parse sample_iso (build_tables ?d) x"
    by (simp add: get_or_empty_def sample_priced sample_resolves sample_dangling_times)
  from unresolved_reference_aborts_batch [OF h1 h2 h3, of sample_iso] obtain e where
    e: "parse_flights sample_iso ?d = Inl e"
    and k1: "\<forall>k. e = KeyError k \<longrightarrow>
      (\<exists>x\<in>set (get_or_empty (itineraries ?d)).
         round_trip x \<and> (\<exists>kd. (kd, k) \<in> set (missing_refs (build_tables ?d) x)))"
    and k2: "(\<forall>x\<in>set (get_or_empty (itineraries ?d)).
                pricing_options x \<noteq> [] \<and> times_parse sample_iso (build_tables ?d) x)
              \<longrightarrow> (\<exists>k. e = KeyError k)"
    by blast
  from k2 ok obtain k where k: "e = KeyError k" by blast
  with k1 have "\<exists>x\<in>set (get_or_empty (itineraries ?d)).
      \<exists>kd. (kd, k) \<in> set (missing_refs (build_tables ?d) x)" by blast
  then have "k = ''l9''"
    by (simp add: get_or_empty_def sample_missing)
  with e k have "parse_flights sample_iso ?d = Inl (KeyError ''l9'')" by simp
  with h2 sample_dangling_unresolved sample_missing(1) show ?thesis by (intro conjI)
qed

text \<open>
  The sample payload with a dangling leg identifier in its first itinerary: the call
  raises \<^verbatim>\<open>KeyError('l9')\<close> and returns nothing, although the second itinerary
  alone normalises.
\<close>

theorem per_itinerary_abort_counterexample:
  "parse_flights sample_iso (sample_payload\<lparr>itineraries := Some [sample_itin_dangling, sample_itin_2]\<rparr>)
     = Inl (KeyError ''l9'')
   \<and> parse_flights sample_iso (sample_payload\<lparr>itineraries := Some [sample_itin_2]\<rparr>) = Inr [sample_flight_2]"
proof -
  have "parse_itinerary sample_iso (build_tables sample_payload) sample_itin_dangling = Inl (KeyError ''l9'')"
    by (rule sample_parse_dangling)
  then show ?thesis
    by (simp add: parse_flights_def get_or_empty_def sample_parse_itinerary)
qed

section \<open>Normalisation: the round-trip filter\<close>

text \<open>
  Claim C4, as the code has it. In a payload whose itineraries all carry a pricing
  option, and whose round trips (exactly two leg identifiers) all have references that
  resolve and timestamps that the library parses, \<^verbatim>\<open>parse_flights\<close> returns one flight
  for each round trip and none for any other itinerary: the output has the length of the
  sublist of round trips, and its \<open>i\<close>-th entry is the normalisation of the \<open>i\<close>-th round
  trip. An itinerary with another number of leg identifiers is passed over without an
  error.
\<close>

theorem round_trip_filter:
  assumes "\<forall>itin\<in>set (get_or_empty (itineraries d)). pricing_options itin \<noteq> []"
    and "\<forall>itin\<in>set (get_or_empty (itineraries d)).
           round_trip itin \<longrightarrow> refs_resolve (build_tables d) itin \<and> times_parse parser (build_tables d) itin"
  shows "\<exists>fs. parse_flights parser d = Inr fs
           \<and> length fs = length (filter round_trip (get_or_empty (itineraries d)))
           \<and> (\<forall>i<length fs.
                 parse_itinerary parser (build_tables d) (filter round_trip (get_or_empty (itineraries d)) ! i)
                   = Inr (Some (fs ! i)))"
proof -
  let ?t = "build_tables d" and ?itins = "get_or_empty (itineraries d)"
  have ok: "\<forall>itin\<in>set ?itins. \<not> isl (parse_itinerary parser ?t itin)"
  proof
    fix itin assume mem: "itin \<in> set ?itins"
    show "\<not> isl (parse_itinerary parser ?t itin)"
    proof (cases "round_trip itin")
      case True
      with assms mem have "\<exists>f. parse_itinerary parser ?t itin = Inr (Some f)"
        by (simp add: parse_itinerary_Some_iff)
      then show ?thesis by auto
    next
      case False
      with assms(1) mem have "parse_itinerary parser ?t itin = Inr None"
        by (simp add: parse_itinerary_None round_trip_def)
      then show ?thesis by simp
    qed
  qed
  then have res: "parse_flights parser d = Inr (kept parser ?t ?itins)"
    by (simp add: parse_flights_Inr)
  have m: "map (\<lambda>f. Inr (Some f)) (kept parser ?t ?itins) = map (parse_itinerary parser ?t) (filter round_trip ?itins)"
    using ok by (rule kept_round_trips)
  have len: "length (kept parser ?t ?itins) = length (filter round_trip ?itins)"
    using arg_cong [OF m, of length] by simp
  have nth: "\<forall>i<length (kept parser ?t ?itins).
       parse_itinerary parser ?t (filter round_trip ?itins ! i) = Inr (Some (kept parser ?t ?itins ! i))"
  proof (intro allI impI)
    fix i assume i: "i < length (kept parser ?t ?itins)"
    have "map (\<lambda>f. Inr (Some f)) (kept parser ?t ?itins) ! i = map (parse_itinerary parser ?t) (filter round_trip ?itins) ! i"
      using m by simp
    then show "parse_itinerary parser ?t (filter round_trip ?itins ! i) = Inr (Some (kept parser ?t ?itins ! i))"
      using i len by simp
  qed
  show ?thesis using res len nth by blast
qed

theorem round_trip_filter_witness:
  "list_all (\<lambda>itin. pricing_options itin \<noteq> []) (get_or_empty (itineraries sample_payload))
   \<and> list_all (\<lambda>itin. round_trip itin \<longrightarrow>
        refs_resolve (build_tables sample_payload) itin \<and> times_parse sample_iso (build_tables sample_payload) itin)
       (get_or_empty (itineraries sample_payload))
   \<and> length (filter round_trip (get_or_empty (itineraries sample_payload))) = 2
   \<and> (\<exists>fs. parse_flights sample_iso sample_payload = Inr fs
         \<and> length fs = length (filter round_trip (get_or_empty (itineraries sample_payload)))
         \<and> (\<forall>i<length fs.
               parse_itinerary sample_iso (build_tables sample_payload)
                 (filter round_trip (get_or_empty (itineraries sample_payload)) ! i)
               = Inr (Some (fs ! i))))"
proof -
  have h1: "\<forall>itin\<in>set (get_or_empty (itineraries sample_payload)). pricing_options itin \<noteq> []"
    by (simp add: sample_itineraries sample_priced)
  have h2: "\<forall>itin\<in>set (get_or_empty (itineraries sample_payload)).
      round_trip itin \<longrightarrow> refs_resolve (build_tables sample_payload) itin
        \<and> times_parse sample_iso (build_tables sample_payload) itin"
    by (simp add: sample_itineraries sample_round_trips sample_resolves)
  have n: "length (filter round_trip (get_or_empty (itineraries sample_payload))) = 2"
    by (simp add: sample_itineraries sample_round_trips)
  from h1 h2 n round_trip_filter [OF h1 h2] show ?thesis
    by (simp only: list_all_iff)
qed

text \<open>
  The hypotheses are about the whole batch, not about one itinerary: the second sample
  round trip has two leg identifiers that resolve, yet it yields no flight when a round
  trip with a dangling leg identifier follows it, and a one-way itinerary without a
  pricing option is not passed over.
\<close>

theorem round_trip_filter_counterexample:
  "round_trip sample_itin_2
   \<and> refs_resolve (build_tables sample_payload) sample_itin_2
   \<and> parse_flights sample_iso
        (sample_payload\<lparr>itineraries := Some [sample_itin_2, sample_itin_dangling]\<rparr>)
       = Inl (KeyError ''l9'')
   \<and> length (leg_ids sample_itin_unpriced) = 1
   \<and> parse_flights sample_iso (sample_payload\<lparr>itineraries := Some [sample_itin_unpriced]\<rparr>)
       = Inl IndexError"
proof -
  have "length (leg_ids sample_itin_unpriced) = 1"
    by (simp add: sample_itin_unpriced_def)
  moreover have "parse_flights sample_iso
        (sample_payload\<lparr>itineraries := Some [sample_itin_2, sample_itin_dangling]\<rparr>)
       = Inl (KeyError ''l9'')"
    by (simp add: parse_flights_def get_or_empty_def sample_parse_itinerary sample_parse_dangling)
  moreover have "parse_flights sample_iso
        (sample_payload\<lparr>itineraries := Some [sample_itin_unpriced]\<rparr>) = Inl IndexError"
    by (simp add: parse_flights_def get_or_empty_def sample_parse_unpriced)
  ultimately show ?thesis
    using sample_round_trips(3) sample_resolves(2) by (intro conjI) simp_all
qed

section \<open>Normalisation: the price\<close>

text \<open>
  Claim C5. When \<^verbatim>\<open>parse_flights\<close> returns, the prices of the flights are, in order,
  the amounts of the first pricing option of the round trips of the payload; the other
  pricing options are not read. In the sample payload the first itinerary offers
  412.50 and then 300, and its flight is priced 412.50.
\<close>

theorem price_is_first_option:
  assumes "parse_flights parser d = Inr fs"
  shows "(\<forall>itin\<in>set (get_or_empty (itineraries d)). pricing_options itin \<noteq> [])
         \<and> map price_usd fs =
             map (\<lambda>itin. amount (price (pricing_options itin ! 0)))
               (filter round_trip (get_or_empty (itineraries d)))"
proof -
  let ?t = "build_tables d" and ?itins = "get_or_empty (itineraries d)"
  from assms have ok: "\<forall>itin\<in>set ?itins. \<not> isl (parse_itinerary parser ?t itin)"
    and fs: "fs = kept parser ?t ?itins"
    by (simp_all add: parse_flights_Inr)
  have "\<forall>itin\<in>set ?itins. pricing_options itin \<noteq> []"
  proof
    fix itin assume "itin \<in> set ?itins"
    with ok have "\<not> isl (parse_itinerary parser ?t itin)" by simp
    then show "pricing_options itin \<noteq> []"
      using parse_itinerary_no_price [of itin parser ?t] by auto
  qed
  then show ?thesis using kept_prices [OF ok] fs by simp
qed

theorem price_is_first_option_witness:
  "parse_flights sample_iso sample_payload = Inr [sample_flight_1, sample_flight_2]
   \<and> map price_usd [sample_flight_1, sample_flight_2] =
       map (\<lambda>itin. amount (price (pricing_options itin ! 0)))
         (filter round_trip (get_or_empty (itineraries sample_payload)))
   \<and> price_usd sample_flight_1 = 825 / 2
   \<and> map (\<lambda>opt. amount (price opt)) (pricing_options sample_itin_1) = [825 / 2, 300]"
proof -
  have "price_usd sample_flight_1 = 825 / 2"
    by (simp add: sample_flight_1_def)
  moreover have "map (\<lambda>opt. amount (price opt)) (pricing_options sample_itin_1) = [825 / 2, 300]"
    by (simp add: sample_itin_1_def)
  ultimately show ?thesis
    using price_is_first_option [OF parse_flights_sample] parse_flights_sample by simp
qed

section \<open>Normalisation: directness\<close>

text \<open>
  Claim C6. In every flight that \<^verbatim>\<open>parse_flights\<close> returns, \<^verbatim>\<open>is_direct\<close> of the
  outbound leg and of the return leg holds exactly when the leg has one segment.
\<close>

theorem is_direct_iff_one_segment:
  assumes "parse_flights parser d = Inr fs"
  shows "\<forall>f\<in>set fs.
           (is_direct (outbound f) \<longleftrightarrow> length (leg_segments (outbound f)) = 1)
           \<and> (is_direct (return f) \<longleftrightarrow> length (leg_segments (return f)) = 1)"
proof
  fix f assume "f \<in> set fs"
  with assms obtain itin where "parse_itinerary parser (build_tables d) itin = Inr (Some f)"
    by (auto simp: parse_flights_Inr kept_mem)
  then obtain lo lr where "format_leg parser (build_tables d) lo = Inr (outbound f)"
    and "format_leg parser (build_tables d) lr = Inr (return f)"
    by (auto simp: parse_itinerary_Some)
  then show "(is_direct (outbound f) \<longleftrightarrow> length (leg_segments (outbound f)) = 1)
           \<and> (is_direct (return f) \<longleftrightarrow> length (leg_segments (return f)) = 1)"
    by (simp add: format_leg_is_direct)
qed

theorem is_direct_iff_one_segment_witness:
  "parse_flights sample_iso sample_payload = Inr [sample_flight_1, sample_flight_2]
   \<and> (is_direct (outbound sample_flight_1) \<longleftrightarrow> length (leg_segments (outbound sample_flight_1)) = 1)
   \<and> (is_direct (return sample_flight_1) \<longleftrightarrow> length (leg_segments (return sample_flight_1)) = 1)
   \<and> length (leg_segments (outbound sample_flight_1)) = 2
   \<and> length (leg_segments (return sample_flight_1)) = 1"
proof -
  have "length (leg_segments (outbound sample_flight_1)) = 2"
    and "length (leg_segments (return sample_flight_1)) = 1"
    by (simp_all add: sample_flight_1_def sample_outbound_def sample_return_def)
  then show ?thesis
    using is_direct_iff_one_segment [OF parse_flights_sample] parse_flights_sample by simp
qed

section \<open>Normalisation: an itinerary without a pricing option\<close>

text \<open>
  Claim C9. The first pricing option is read before the number of legs is looked at: an
  itinerary with no pricing option raises \<^verbatim>\<open>IndexError\<close> whatever its leg identifiers
  are, and a payload that holds one makes \<^verbatim>\<open>parse_flights\<close> fail; the failure is this
  \<^verbatim>\<open>IndexError\<close> when no itinerary before it fails.
\<close>

theorem empty_pricing_options_fails:
  assumes "get_or_empty (itineraries d) = pre @ itin # post" and "pricing_options itin = []"
  shows "parse_itinerary parser (build_tables d) itin = Inl IndexError
         \<and> (\<exists>e. parse_flights parser d = Inl e
               \<and> ((\<forall>x\<in>set pre. \<not> isl (parse_itinerary parser (build_tables d) x)) \<longrightarrow> e = IndexError))"
proof -
  let ?t = "build_tables d"
  have step: "parse_itinerary parser ?t itin = Inl IndexError"
    using assms(2) by (rule parse_itinerary_no_price)
  have "itin \<in> set (get_or_empty (itineraries d))" using assms(1) by simp
  moreover have "isl (parse_itinerary parser ?t itin)" using step by simp
  ultimately obtain e where e: "parse_flights parser d = Inl e"
    unfolding parse_flights_def using parse_loop_fails by blast
  have "e = IndexError" if "\<forall>x\<in>set pre. \<not> isl (parse_itinerary parser ?t x)"
  proof -
    have "parse_flights parser d = Inl IndexError"
      unfolding parse_flights_def assms(1) using that step by (rule parse_loop_first_failure)
    with e show ?thesis by simp
  qed
  with step e show ?thesis by blast
qed

theorem empty_pricing_options_fails_witness:
  "pricing_options sample_itin_unpriced = [] \<and> length (leg_ids sample_itin_unpriced) = 1
   \<and> parse_flights
        sample_iso (sample_payload\<lparr>itineraries := Some [sample_itin_1, sample_itin_unpriced, sample_itin_2]\<rparr>)
       = Inl IndexError"
proof -
  let ?d = "sample_payload\<lparr>itineraries := Some [sample_itin_1, sample_itin_unpriced, sample_itin_2]\<rparr>"
  have h1: "get_or_empty (itineraries ?d) = [sample_itin_1] @ sample_itin_unpriced # [sample_itin_2]"
    by (simp add: get_or_empty_def)
  have h2: "pricing_options sample_itin_unpriced = []"
    by (rule sample_priced)
  have pre: "\<forall>x\<in>set [sample_itin_1]. \<not> isl (parse_itinerary sample_iso (build_tables ?d) x)"
    by (simp add: sample_parse_itinerary)
  have "length (leg_ids sample_itin_unpriced) = 1"
    by (simp add: sample_itin_unpriced_def)
  with h2 pre empty_pricing_options_fails [OF h1 h2] show ?thesis
    by auto
qed

section \<open>Normalisation: absent keys\<close>

text \<open>
  Claim C10. An absent top-level key is read as the empty array: \<^verbatim>\<open>parse_flights\<close>
  gives the same result whether \<^verbatim>\<open>legs\<close>, \<^verbatim>\<open>places\<close>, \<^verbatim>\<open>carriers\<close>,
  \<^verbatim>\<open>segments\<close> or \<^verbatim>\<open>itineraries\<close> is absent or empty, and a payload without
  \<^verbatim>\<open>itineraries\<close> normalises to the empty list.
\<close>

theorem absent_keys_read_as_empty:
  "parse_flights parser (d\<lparr>itineraries := None\<rparr>) = Inr []
   \<and> parse_flights parser (d\<lparr>itineraries := None\<rparr>) = parse_flights parser (d\<lparr>itineraries := Some []\<rparr>)
   \<and> parse_flights parser (d\<lparr>legs := None\<rparr>) = parse_flights parser (d\<lparr>legs := Some []\<rparr>)
   \<and> parse_flights parser (d\<lparr>places := None\<rparr>) = parse_flights parser (d\<lparr>places := Some []\<rparr>)
   \<and> parse_flights parser (d\<lparr>carriers := None\<rparr>) = parse_flights parser (d\<lparr>carriers := Some []\<rparr>)
   \<and> parse_flights parser (d\<lparr>segments := None\<rparr>) = parse_flights parser (d\<lparr>segments := Some []\<rparr>)"
  by (simp add: parse_flights_def build_tables_def get_or_empty_def)

theorem absent_keys_read_as_empty_witness:
  "parse_flights sample_iso (sample_payload\<lparr>itineraries := None\<rparr>) = Inr []
   \<and> parse_flights sample_iso \<lparr>legs = None, places = None, carriers = None, segments = None,
        itineraries = None\<rparr> = Inr []"
  using absent_keys_read_as_empty [of sample_iso sample_payload]
    absent_keys_read_as_empty [of sample_iso "\<lparr>legs = None, places = None, carriers = None, segments = None,
        itineraries = None\<rparr>"]
  by simp

section \<open>Compression\<close>

lemma simplify_loop_eq: "simplify_loop fs acc = acc @ map simplify_flight fs"
  by (induction fs arbitrary: acc) simp_all

text \<open>
  Claim C3. For a maximum count \<open>N\<close>, \<^verbatim>\<open>simplify_parsed_flights\<close> returns the
  compression of the first \<open>N\<close> flights: exactly \<open>min N (length flights)\<close> entries, the
  \<open>i\<close>-th being the compression of the \<open>i\<close>-th flight of the input, so the input's order
  is kept and nothing is sorted.
\<close>

theorem simplify_truncates:
  "simplify_parsed_flights flights (int N) = map simplify_flight (take N flights)
   \<and> length (simplify_parsed_flights flights (int N)) = min N (length flights)
   \<and> (\<forall>i<length (simplify_parsed_flights flights (int N)).
         simplify_parsed_flights flights (int N) ! i = simplify_flight (flights ! i))"
proof -
  have eq: "simplify_parsed_flights flights (int N) = map simplify_flight (take N flights)"
    by (simp add: simplify_parsed_flights_def simplify_loop_eq slice_to_def)
  have len: "length (simplify_parsed_flights flights (int N)) = min N (length flights)"
    by (simp add: eq)
  have nth: "simplify_parsed_flights flights (int N) ! i = simplify_flight (flights ! i)"
    if "i < length (simplify_parsed_flights flights (int N))" for i
    using that by (simp add: eq)
  from eq len nth show ?thesis by blast
qed

theorem simplify_truncates_witness:
  "simplify_parsed_flights [sample_flight_1, sample_flight_2] (int 1) = [simplify_flight sample_flight_1]
   \<and> length (simplify_parsed_flights [sample_flight_1, sample_flight_2] (int 1))
       = min 1 (length [sample_flight_1, sample_flight_2])
   \<and> price_usd sample_flight_2 < price_usd sample_flight_1"
proof -
  have "price_usd sample_flight_2 < price_usd sample_flight_1"
    by (simp add: sample_flight_1_def sample_flight_2_def)
  then show ?thesis
    using simplify_truncates [of "[sample_flight_1, sample_flight_2]" 1] by simp
qed

section \<open>Presentation\<close>

text \<open>
  Claim C7. \<^verbatim>\<open>format_flight_for_humans\<close> is total on normalised flights (no step of
  it can raise), and its result begins with \<^verbatim>\<open>Price: $\<close> and the price to two decimal
  places: an optional sign, the digits of \<open>n div 100\<close>, a point and the two digits of
  \<open>n mod 100\<close>, where \<open>n\<close> is within one half of a hundred times the absolute price.
  After a blank line comes the block of the outbound leg and, after another blank line,
  the block of the return leg; each block opens with its heading, the route, and the
  departure and the arrival as a date and a time on the 12-hour clock with AM or PM.
\<close>

theorem format_flight_for_humans_shape:
  "\<exists>n ob_rest rt_rest.
     format_flight_for_humans f =
       ''Price: $'' @ format_2f (price_usd f) @ newline @ newline
       @ leg_block_head ''Outbound'' (outbound f) @ ob_rest @ newline @ newline
       @ leg_block_head ''Return'' (return f) @ rt_rest
     \<and> format_2f (price_usd f) =
         (if price_usd f < 0 then ''-'' else []) @ dec (n div 100) @ ''.''
         @ [digit (n mod 100 div 10), digit (n mod 10)]
     \<and> \<bar>\<bar>price_usd f\<bar> * 100 - of_nat n\<bar> \<le> 1 / 2"
proof -
  obtain n where n: "format_2f (price_usd f) =
         (if price_usd f < 0 then ''-'' else []) @ dec (n div 100) @ ''.''
         @ [digit (n mod 100 div 10), digit (n mod 10)]"
    and b: "\<bar>\<bar>price_usd f\<bar> * 100 - of_nat n\<bar> \<le> 1 / 2"
    using format_2f_two_decimals [of "price_usd f"] by blast
  obtain ob_rest where ob: "format_leg_humans (outbound f) ''Outbound''
      = leg_block_head ''Outbound'' (outbound f) @ ob_rest"
    using format_leg_humans_head by blast
  obtain rt_rest where rt: "format_leg_humans (return f) ''Return''
      = leg_block_head ''Return'' (return f) @ rt_rest"
    using format_leg_humans_head by blast
  have "format_flight_for_humans f =
       ''Price: $'' @ format_2f (price_usd f) @ newline @ newline
       @ leg_block_head ''Outbound'' (outbound f) @ ob_rest @ newline @ newline
       @ leg_block_head ''Return'' (return f) @ rt_rest"
    by (simp only: format_flight_for_humans_eq ob rt append_assoc)
  with n b show ?thesis by blast
qed

theorem format_flight_for_humans_shape_witness:
  "\<exists>ob_rest rt_rest.
     format_flight_for_humans sample_flight_2 =
       ''Price: $387.20'' @ newline @ newline
       @ ''Outbound Flight:'' @ newline @ ''- From SFO to JFK'' @ newline
       @ ''- Departure: 2025-10-01 08:30 AM'' @ newline
       @ ''- Arrival: 2025-10-01 06:45 PM'' @ newline @ ob_rest @ newline @ newline
       @ ''Return Flight:'' @ newline @ ''- From JFK to SFO'' @ newline
       @ ''- Departure: 2025-10-08 12:00 PM'' @ newline
       @ ''- Arrival: 2025-10-08 03:20 PM'' @ newline @ rt_rest"
proof -
  from format_flight_for_humans_shape [of sample_flight_2] obtain ob_rest rt_rest where
    "format_flight_for_humans sample_flight_2 =
       ''Price: $'' @ format_2f (price_usd sample_flight_2) @ newline @ newline
       @ leg_block_head ''Outbound'' (outbound sample_flight_2) @ ob_rest @ newline @ newline
       @ leg_block_head ''Return'' (return sample_flight_2) @ rt_rest"
    by blast
  then have "format_flight_for_humans sample_flight_2 =
       ''Price: $387.20'' @ newline @ newline
       @ ''Outbound Flight:'' @ newline @ ''- From SFO to JFK'' @ newline
       @ ''- Departure: 2025-10-01 08:30 AM'' @ newline
       @ ''- Arrival: 2025-10-01 06:45 PM'' @ newline @ ob_rest @ newline @ newline
       @ ''Return Flight:'' @ newline @ ''- From JFK to SFO'' @ newline
       @ ''- Departure: 2025-10-08 12:00 PM'' @ newline
       @ ''- Arrival: 2025-10-08 03:20 PM'' @ newline @ rt_rest"
    by (simp add: sample_price_text sample_outbound_head sample_return_head)
  then show ?thesis by blast
qed

end
